theory Spec2Isabelle
  imports Complex_Main "HOL-Library.AList"
begin

section \<open>Anomalous-sequence scoring of msticpy: the data model\<close>

text \<open>
  The modules \<^verbatim>\<open>cmds_params_only.py\<close>, \<^verbatim>\<open>cmds_params_values.py\<close> and
  \<^verbatim>\<open>probabilities.py\<close> are embedded function by function. A Python float is read
  as the real number it denotes; the one float that is not a number, \<^verbatim>\<open>np.nan\<close>,
  is a constructor of its own. In the two scoring modules the arithmetic on floats is
  exact (no rounding, no overflow). In \<^verbatim>\<open>probabilities.py\<close>, where the probabilities
  are made, every division rounds its quotient to the nearest double. Python exceptions
  are values of the type \<open>error\<close>, and a function that can raise returns
  \<open>error + 'a\<close>.
  Where both modules define a function of the same name, the parameter-only one carries
  the suffix \<open>_po\<close> and the value-aware one the suffix \<open>_pv\<close>.
\<close>

datatype error =
  AssertionError | KeyError | IndexError | ZeroDivisionError | OverflowError | ValueError
  | NotAFloat

definition ebind :: "error + 'a \<Rightarrow> ('a \<Rightarrow> error + 'b) \<Rightarrow> error + 'b" where
  "ebind m f = (case m of Inl e \<Rightarrow> Inl e | Inr v \<Rightarrow> f v)"

text \<open>A loop whose body can raise: the first exception ends it.\<close>

fun foldM :: "('a \<Rightarrow> 's \<Rightarrow> error + 's) \<Rightarrow> 'a list \<Rightarrow> 's \<Rightarrow> error + 's" where
  "foldM f [] s = Inr s"
| "foldM f (x # xs) s = (case f x s of Inl e \<Rightarrow> Inl e | Inr s' \<Rightarrow> foldM f xs s')"

text \<open>
  A Python \<^verbatim>\<open>dict\<close> is an association list in insertion order; a well-formed one has
  distinct keys.
\<close>

type_synonym 'v dict = "(string \<times> 'v) list"

definition keys :: "'v dict \<Rightarrow> string list" where
  "keys d = map fst d"

definition dict_values :: "'v dict \<Rightarrow> 'v list" where
  "dict_values d = map snd d"

text \<open>
  Modelled from the spec: the class \<^verbatim>\<open>StateMatrix\<close> of \<^verbatim>\<open>data_structures.py\<close>,
  which is not among the sources (only its test and its callers are). The probability
  and count tables are typed \<^verbatim>\<open>Union[StateMatrix, dict]\<close>: a table is a plain dict,
  or a mapping with its unknown token. The callers iterate over a \<^verbatim>\<open>StateMatrix\<close>
  with \<^verbatim>\<open>items()\<close>, \<^verbatim>\<open>values()\<close> and \<^verbatim>\<open>len\<close> as over a dict; \<open>items\<close> gives
  the entries of the mapping it was built from.
\<close>

datatype 'v table = Dict "'v dict" | StateMatrix "'v dict" string

fun items :: "'v table \<Rightarrow> 'v dict" where
  "items (Dict d) = d"
| "items (StateMatrix d u) = d"

text \<open>
  Modelled from the spec: the lookup operator of \<^verbatim>\<open>StateMatrix\<close>
  (\<^verbatim>\<open>data_structures.py\<close> is missing). The exact key if present, else the value
  stored under the unknown token. The \<open>Dict\<close> case is Python's own: a missing key
  raises \<^verbatim>\<open>KeyError\<close>.
\<close>

fun getitem :: "'v table \<Rightarrow> string \<Rightarrow> error + 'v" where
  "getitem (Dict d) k = (case map_of d k of None \<Rightarrow> Inl KeyError | Some v \<Rightarrow> Inr v)"
| "getitem (StateMatrix d u) k =
     (case map_of d k of
        Some v \<Rightarrow> Inr v
      | None \<Rightarrow> (case map_of d u of None \<Rightarrow> Inl KeyError | Some v \<Rightarrow> Inr v))"

definition getitem2 :: "'v table table \<Rightarrow> string \<Rightarrow> string \<Rightarrow> error + 'v" where
  "getitem2 t k1 k2 = ebind (getitem t k1) (\<lambda>row. getitem row k2)"

text \<open>
  Modelled from the spec: the record \<^verbatim>\<open>Cmd\<close>, also of the missing
  \<^verbatim>\<open>data_structures.py\<close>, with the two attributes the code reads. The parameters are
  a set of names in one module (a list here, in iteration order) and a dict from names
  to values in the other.
\<close>

record 'p Cmd =
  name :: string
  params :: 'p

text \<open>Python indexing and slicing of a list: negative indices count from the end.\<close>

definition py_nth :: "'a list \<Rightarrow> int \<Rightarrow> error + 'a" where
  "py_nth xs i =
     (let n = int (length xs); j = (if i < 0 then i + n else i)
      in if 0 \<le> j \<and> j < n then Inr (xs ! nat j) else Inl IndexError)"

definition py_slice :: "'a list \<Rightarrow> int \<Rightarrow> int \<Rightarrow> 'a list" where
  "py_slice xs i j =
     (let n = int (length xs);
          lo = (if i < 0 then max (i + n) 0 else min i n);
          hi = (if j < 0 then max (j + n) 0 else min j n)
      in take (nat (hi - lo)) (drop (nat lo) xs))"

text \<open>
  Float arithmetic that can leave the numbers. \<^verbatim>\<open>a / b\<close> raises on a zero divisor.
  \<^verbatim>\<open>x ** y\<close> raises on a zero base with a negative exponent, and on a negative base
  with a fractional exponent Python answers with a complex number: no float, the model
  stops there with \<open>NotAFloat\<close>.
\<close>

definition py_truediv :: "real \<Rightarrow> real \<Rightarrow> error + real" where
  "py_truediv a b = (if b = 0 then Inl ZeroDivisionError else Inr (a / b))"

definition py_pow :: "real \<Rightarrow> real \<Rightarrow> error + real" where
  "py_pow x y =
     (if y = 0 then Inr 1
      else if x = 0 then (if y < 0 then Inl ZeroDivisionError else Inr 0)
      else if x < 0 then (if y \<in> \<int> then Inr (x powi \<lfloor>y\<rfloor>) else Inl NotAFloat)
      else Inr (x powr y))"

datatype lik = NaN | Val real

definition lik_pow :: "lik \<Rightarrow> real \<Rightarrow> error + lik" where
  "lik_pow l y =
     (case l of
        NaN \<Rightarrow> Inr (if y = 0 then Val 1 else NaN)
      | Val x \<Rightarrow> ebind (py_pow x y) (\<lambda>r. Inr (Val r)))"

section \<open>The likelihood engine\<close>

subsection \<open>Likelihood of a set of parameters given a command\<close>

definition compute_prob_setofparams_given_cmd_po ::
  "string \<Rightarrow> string list \<Rightarrow> real table table \<Rightarrow> bool \<Rightarrow> error + real" where
  "compute_prob_setofparams_given_cmd_po cmd ps param_cond_cmd_probs use_geo_mean =
     (if length ps = 0 then Inr 1
      else
        ebind (getitem param_cond_cmd_probs cmd) (\<lambda>ref.
        let prob = fold (\<lambda>(param, p) prob.
                      if param \<in> set ps then prob * p else prob * (1 - p)) (items ref) 1
        in if use_geo_mean
           then ebind (py_truediv 1 (real (length (items ref)))) (\<lambda>e. py_pow prob e)
           else Inr prob))"

definition param_step_pv ::
  "(string \<times> string) list \<Rightarrow> real table table \<Rightarrow> string set \<Rightarrow>
   string \<times> real \<Rightarrow> real \<times> nat \<Rightarrow> error + (real \<times> nat)" where
  "param_step_pv params_with_vals value_cond_param_probs modellable_params entry st =
     (case entry of (param, p1) \<Rightarrow>
      case st of (prob, num) \<Rightarrow>
        (case map_of params_with_vals param of
           Some v \<Rightarrow>
             (if param \<in> modellable_params
              then ebind (getitem2 value_cond_param_probs param v)
                     (\<lambda>pv. Inr (prob * p1 * pv, num + 1))
              else Inr (prob * p1, num))
         | None \<Rightarrow> Inr (prob * (1 - p1), num)))"

definition compute_prob_setofparams_given_cmd_pv ::
  "string \<Rightarrow> (string \<times> string) list \<Rightarrow> real table table \<Rightarrow> real table table \<Rightarrow>
   string set \<Rightarrow> bool \<Rightarrow> error + real" where
  "compute_prob_setofparams_given_cmd_pv cmd params_with_vals param_cond_cmd_probs
       value_cond_param_probs modellable_params use_geo_mean =
     (if length params_with_vals = 0 then Inr 1
      else
        ebind (getitem param_cond_cmd_probs cmd) (\<lambda>ref_cmd.
        ebind (foldM (param_step_pv params_with_vals value_cond_param_probs modellable_params)
                 (items ref_cmd) (1, 0)) (\<lambda>(prob, num).
        if use_geo_mean
        then (let k = length (items ref_cmd) + num
              in if k > 0 then ebind (py_truediv 1 (real k)) (\<lambda>e. py_pow prob e)
                 else Inr prob)
        else Inr prob)))"

subsection \<open>Likelihood of a window\<close>

text \<open>
  \<^verbatim>\<open>compute_likelihood_window\<close> is the same text in both modules but for the call that
  scores the parameters of a command. \<open>likelihood_window\<close> is that text with the call
  as the argument \<open>pp\<close>. \<open>window_step\<close> is one pass of its loop
  \<^verbatim>\<open>for i, cmdparam in enumerate(window[1:])\<close>, which reads
  \<^verbatim>\<open>window[i - 1]\<close> and \<^verbatim>\<open>window[i]\<close> with \<open>i\<close> counted from 0; the loop
  state is the running product and the variable \<^verbatim>\<open>cur_cmd\<close>.
\<close>

definition window_step ::
  "(string \<Rightarrow> 'p \<Rightarrow> error + real) \<Rightarrow> real table table \<Rightarrow> 'p Cmd list \<Rightarrow>
   nat \<Rightarrow> real \<times> string \<Rightarrow> error + (real \<times> string)" where
  "window_step pp trans_probs window i st =
     ebind (py_nth window (int i - 1)) (\<lambda>prev.
     ebind (py_nth window (int i)) (\<lambda>cur.
     ebind (getitem2 trans_probs (name prev) (name cur)) (\<lambda>t.
     ebind (pp (name cur) (params cur)) (\<lambda>param_cond_prob.
       Inr (fst st * t * param_cond_prob, name cur)))))"

definition likelihood_window ::
  "(string \<Rightarrow> 'p \<Rightarrow> error + real) \<Rightarrow> 'p Cmd list \<Rightarrow> real table \<Rightarrow> real table table \<Rightarrow>
   bool \<Rightarrow> bool \<Rightarrow> string option \<Rightarrow> string option \<Rightarrow> error + lik" where
  "likelihood_window pp window prior_probs trans_probs use_start_token use_end_token
       start_token end_token =
     (if use_start_token \<and> start_token = None then Inl AssertionError
      else if use_end_token \<and> end_token = None then Inl AssertionError
      else if length window = 0 then Inr NaN
      else
        ebind (py_nth window 0) (\<lambda>w0.
        ebind (pp (name w0) (params w0)) (\<lambda>param_cond_prob.
        ebind (if use_start_token then getitem2 trans_probs (the start_token) (name w0)
               else getitem prior_probs (name w0)) (\<lambda>p0.
        ebind (foldM (window_step pp trans_probs window) [0..<length window - 1]
                 (1 * (p0 * param_cond_prob), name w0)) (\<lambda>(prob, cur_cmd).
        ebind (if use_end_token
               then ebind (getitem2 trans_probs cur_cmd (the end_token))
                      (\<lambda>t. Inr (prob * t))
               else Inr prob) (\<lambda>prob'.
          Inr (Val prob')))))))"

definition compute_likelihood_window_po ::
  "string list Cmd list \<Rightarrow> real table \<Rightarrow> real table table \<Rightarrow> real table table \<Rightarrow>
   bool \<Rightarrow> bool \<Rightarrow> string option \<Rightarrow> string option \<Rightarrow> error + lik" where
  "compute_likelihood_window_po window prior_probs trans_probs param_cond_cmd_probs =
     likelihood_window
       (\<lambda>c ps. compute_prob_setofparams_given_cmd_po c ps param_cond_cmd_probs True)
       window prior_probs trans_probs"

definition compute_likelihood_window_pv ::
  "(string \<times> string) list Cmd list \<Rightarrow> real table \<Rightarrow> real table table \<Rightarrow>
   real table table \<Rightarrow> real table table \<Rightarrow> string set \<Rightarrow>
   bool \<Rightarrow> bool \<Rightarrow> string option \<Rightarrow> string option \<Rightarrow> error + lik" where
  "compute_likelihood_window_pv window prior_probs trans_probs param_cond_cmd_probs
       value_cond_param_probs modellable_params =
     likelihood_window
       (\<lambda>c ps. compute_prob_setofparams_given_cmd_pv c ps param_cond_cmd_probs
                  value_cond_param_probs modellable_params True)
       window prior_probs trans_probs"

text \<open>
  The window likelihood in the words of the specification: the prior of the first
  command times its parameter likelihood, then for each later command the transition
  from the command before it times its own parameter likelihood.
\<close>

fun spec_transitions ::
  "(string \<Rightarrow> 'p \<Rightarrow> error + real) \<Rightarrow> real table table \<Rightarrow> 'p Cmd \<Rightarrow> 'p Cmd list \<Rightarrow>
   error + real" where
  "spec_transitions pp trans_probs prev [] = Inr 1"
| "spec_transitions pp trans_probs prev (c # cs) =
     (case getitem2 trans_probs (name prev) (name c) of
        Inl e \<Rightarrow> Inl e
      | Inr t \<Rightarrow>
         (case pp (name c) (params c) of
            Inl e \<Rightarrow> Inl e
          | Inr q \<Rightarrow>
             (case spec_transitions pp trans_probs c cs of
                Inl e \<Rightarrow> Inl e
              | Inr r \<Rightarrow> Inr (t * q * r))))"

fun spec_window_likelihood ::
  "(string \<Rightarrow> 'p \<Rightarrow> error + real) \<Rightarrow> 'p Cmd list \<Rightarrow> real table \<Rightarrow> real table table \<Rightarrow>
   error + lik" where
  "spec_window_likelihood pp [] prior_probs trans_probs = Inr NaN"
| "spec_window_likelihood pp (c # cs) prior_probs trans_probs =
     ebind (getitem prior_probs (name c)) (\<lambda>p0.
     ebind (pp (name c) (params c)) (\<lambda>q0.
     ebind (spec_transitions pp trans_probs c cs) (\<lambda>r.
       Inr (Val (p0 * q0 * r)))))"

subsection \<open>Sliding windows and the rarest window\<close>

text \<open>
  \<^verbatim>\<open>compute_likelihood_windows_in_session\<close> and \<^verbatim>\<open>rarest_window_session\<close> are
  again one text in both modules. \<open>emp\<close> is the empty parameter collection of the
  appended end-token command (\<^verbatim>\<open>{}\<close> in one module, \<^verbatim>\<open>dict()\<close> in the other).
\<close>

definition windows_step ::
  "(string \<Rightarrow> 'p \<Rightarrow> error + real) \<Rightarrow> 'p Cmd list \<Rightarrow> real table \<Rightarrow> real table table \<Rightarrow>
   int \<Rightarrow> bool \<Rightarrow> string option \<Rightarrow> string option \<Rightarrow> bool \<Rightarrow>
   nat \<Rightarrow> lik list \<Rightarrow> error + lik list" where
  "windows_step pp sess prior_probs trans_probs window_len use_start_end_tokens
       start_token end_token use_geo_mean i likelihoods =
     (let window = py_slice sess (int i) (int i + window_len);
          use_start = (if i = 0 then use_start_end_tokens else False)
      in ebind (likelihood_window pp window prior_probs trans_probs use_start False
                  start_token end_token) (\<lambda>l.
         ebind (if use_geo_mean
                then ebind (py_truediv 1 (real_of_int window_len)) (\<lambda>e. lik_pow l e)
                else Inr l) (\<lambda>l'.
           Inr (likelihoods @ [l']))))"

definition likelihood_windows_in_session ::
  "(string \<Rightarrow> 'p \<Rightarrow> error + real) \<Rightarrow> 'p \<Rightarrow> 'p Cmd list \<Rightarrow> real table \<Rightarrow>
   real table table \<Rightarrow> int \<Rightarrow> bool \<Rightarrow> string option \<Rightarrow> string option \<Rightarrow> bool \<Rightarrow>
   error + lik list" where
  "likelihood_windows_in_session pp emp session prior_probs trans_probs window_len
       use_start_end_tokens start_token end_token use_geo_mean =
     (if use_start_end_tokens \<and> (start_token = None \<or> end_token = None)
      then Inl AssertionError
      else
        let sess = session @
              (if use_start_end_tokens then [\<lparr>name = the end_token, params = emp\<rparr>] else []);
            end = int (length sess) - window_len
        in foldM (windows_step pp sess prior_probs trans_probs window_len
                    use_start_end_tokens start_token end_token use_geo_mean)
             [0..<nat (end + 1)] [])"

text \<open>
  Python's \<^verbatim>\<open>min\<close> keeps the first item and replaces it by a later one that compares
  smaller; every comparison with NaN is false. \<^verbatim>\<open>list.index\<close> finds the first item
  that is the same object or compares equal. \<^verbatim>\<open>min\<close> returns NaN only when the
  first item is NaN, and then \<^verbatim>\<open>index\<close> finds that object at position 0, which is
  also what comparing constructors gives.
\<close>

fun lik_lt :: "lik \<Rightarrow> lik \<Rightarrow> bool" where
  "lik_lt (Val a) (Val b) = (a < b)"
| "lik_lt _ _ = False"

definition py_min :: "lik list \<Rightarrow> error + lik" where
  "py_min xs =
     (case xs of
        [] \<Rightarrow> Inl ValueError
      | x # rest \<Rightarrow> Inr (fold (\<lambda>item cur. if lik_lt item cur then item else cur) rest x))"

fun py_index :: "'a list \<Rightarrow> 'a \<Rightarrow> error + nat" where
  "py_index [] x = Inl ValueError"
| "py_index (y # ys) x =
     (if y = x then Inr 0
      else (case py_index ys x of Inl e \<Rightarrow> Inl e | Inr i \<Rightarrow> Inr (Suc i)))"

definition rarest_window ::
  "(string \<Rightarrow> 'p \<Rightarrow> error + real) \<Rightarrow> 'p \<Rightarrow> 'p Cmd list \<Rightarrow> real table \<Rightarrow>
   real table table \<Rightarrow> int \<Rightarrow> bool \<Rightarrow> string \<Rightarrow> string \<Rightarrow> bool \<Rightarrow>
   error + ('p Cmd list \<times> lik)" where
  "rarest_window pp emp session prior_probs trans_probs window_len use_start_end_tokens
       start_token end_token use_geo_mean =
     ebind (likelihood_windows_in_session pp emp session prior_probs trans_probs window_len
              use_start_end_tokens (Some start_token) (Some end_token) use_geo_mean)
       (\<lambda>likelihoods.
          if length likelihoods = 0 then Inr ([], NaN)
          else
            ebind (py_min likelihoods) (\<lambda>min_lik.
            ebind (py_index likelihoods min_lik) (\<lambda>ind.
              Inr (py_slice session (int ind) (int ind + window_len), min_lik))))"

definition compute_likelihood_windows_in_session_po ::
  "string list Cmd list \<Rightarrow> real table \<Rightarrow> real table table \<Rightarrow> real table table \<Rightarrow>
   int \<Rightarrow> bool \<Rightarrow> string option \<Rightarrow> string option \<Rightarrow> bool \<Rightarrow> error + lik list" where
  "compute_likelihood_windows_in_session_po session prior_probs trans_probs
       param_cond_cmd_probs =
     likelihood_windows_in_session
       (\<lambda>c ps. compute_prob_setofparams_given_cmd_po c ps param_cond_cmd_probs True)
       [] session prior_probs trans_probs"

definition compute_likelihood_windows_in_session_pv ::
  "(string \<times> string) list Cmd list \<Rightarrow> real table \<Rightarrow> real table table \<Rightarrow>
   real table table \<Rightarrow> real table table \<Rightarrow> string set \<Rightarrow>
   int \<Rightarrow> bool \<Rightarrow> string option \<Rightarrow> string option \<Rightarrow> bool \<Rightarrow> error + lik list" where
  "compute_likelihood_windows_in_session_pv session prior_probs trans_probs
       param_cond_cmd_probs value_cond_param_probs modellable_params =
     likelihood_windows_in_session
       (\<lambda>c ps. compute_prob_setofparams_given_cmd_pv c ps param_cond_cmd_probs
                  value_cond_param_probs modellable_params True)
       [] session prior_probs trans_probs"

definition rarest_window_session_po ::
  "string list Cmd list \<Rightarrow> real table \<Rightarrow> real table table \<Rightarrow> real table table \<Rightarrow>
   int \<Rightarrow> bool \<Rightarrow> string \<Rightarrow> string \<Rightarrow> bool \<Rightarrow> error + (string list Cmd list \<times> lik)" where
  "rarest_window_session_po session prior_probs trans_probs param_cond_cmd_probs =
     rarest_window
       (\<lambda>c ps. compute_prob_setofparams_given_cmd_po c ps param_cond_cmd_probs True)
       [] session prior_probs trans_probs"

definition rarest_window_session_pv ::
  "(string \<times> string) list Cmd list \<Rightarrow> real table \<Rightarrow> real table table \<Rightarrow>
   real table table \<Rightarrow> real table table \<Rightarrow> string set \<Rightarrow>
   int \<Rightarrow> bool \<Rightarrow> string \<Rightarrow> string \<Rightarrow> bool \<Rightarrow>
   error + ((string \<times> string) list Cmd list \<times> lik)" where
  "rarest_window_session_pv session prior_probs trans_probs param_cond_cmd_probs
       value_cond_param_probs modellable_params =
     rarest_window
       (\<lambda>c ps. compute_prob_setofparams_given_cmd_pv c ps param_cond_cmd_probs
                  value_cond_param_probs modellable_params True)
       [] session prior_probs trans_probs"

section \<open>Tables with a fallback\<close>

text \<open>
  Modelled from the spec: the constructor of \<^verbatim>\<open>StateMatrix\<close>
  (\<^verbatim>\<open>data_structures.py\<close> is missing). Construction fails if the mapping is empty, if
  the unknown token is missing from the top level or, for a nested table, from any
  second-level sub-mapping; \<^verbatim>\<open>test_state_matrix\<close> expects an
  \<^verbatim>\<open>AssertionError\<close> in each of these cases. The sub-mappings of a nested table
  are tables with the same fallback. \<open>state_matrix\<close> builds a flat table and
  \<open>state_matrix2\<close> a nested one.
\<close>

definition state_matrix :: "'v dict \<Rightarrow> string \<Rightarrow> error + 'v table" where
  "state_matrix states unk_token =
     (if length states = 0 then Inl AssertionError
      else if unk_token \<notin> set (keys states) then Inl AssertionError
      else Inr (StateMatrix states unk_token))"

definition state_matrix2 :: "'v dict dict \<Rightarrow> string \<Rightarrow> error + 'v table table" where
  "state_matrix2 states unk_token =
     (if length states = 0 then Inl AssertionError
      else if unk_token \<notin> set (keys states) then Inl AssertionError
      else if \<not> list_all (\<lambda>row. unk_token \<in> set (keys row)) (dict_values states)
        then Inl AssertionError
      else Inr (StateMatrix (map (\<lambda>(k, row). (k, StateMatrix row unk_token)) states)
                  unk_token))"

section \<open>The categorical-value classifier\<close>

text \<open>
  \<^verbatim>\<open>get_params_to_model_values\<close> first builds the list \<^verbatim>\<open>param_stats\<close> for every
  parameter (the division is done for each of them) and then filters it.
\<close>

definition param_stats_step ::
  "int table \<Rightarrow> string \<times> 'v table \<Rightarrow> (string \<times> nat \<times> int \<times> real) list \<Rightarrow>
   error + (string \<times> nat \<times> int \<times> real) list" where
  "param_stats_step param_counts entry param_stats =
     (case entry of (param, vals) \<Rightarrow>
        ebind (getitem param_counts param) (\<lambda>n.
        ebind (py_truediv (real (100 * length (items vals))) (real_of_int n)) (\<lambda>r.
          Inr (param_stats @ [(param, length (items vals), n, r)]))))"

definition get_params_to_model_values ::
  "int table \<Rightarrow> 'v table table \<Rightarrow> error + string set" where
  "get_params_to_model_values param_counts param_value_counts =
     ebind (foldM (param_stats_step param_counts) (items param_value_counts) [])
       (\<lambda>param_stats.
          Inr (set (map fst
                 (filter (\<lambda>(p, d, n, r). d \<le> 20 \<and> n \<ge> 20 \<and> r \<le> 10) param_stats))))"

text \<open>
  The entry of \<^verbatim>\<open>param_stats\<close> for one parameter, when its count is found and is
  not zero (used to state what the loop above builds).
\<close>

definition param_stat :: "int table \<Rightarrow> string \<times> 'v table \<Rightarrow> string \<times> nat \<times> int \<times> real" where
  "param_stat pc entry =
     (case entry of (p, vals) \<Rightarrow>
        (p, length (items vals), projr (getitem pc p),
         real (100 * length (items vals)) / real_of_int (projr (getitem pc p))))"

section \<open>Deriving probabilities from counts\<close>

text \<open>
  The counts are Python ints, and \<^verbatim>\<open>count / total\<close> on two ints is the true
  division of ints: it returns the double nearest to the exact quotient, ties going to
  the even significand, raises \<^verbatim>\<open>ZeroDivisionError\<close> on a zero divisor and
  \<^verbatim>\<open>OverflowError\<close> when the rounded quotient is too large for a double.
  \<open>round_binary64\<close> rounds a real number to the nearest number of the binary64
  format with an exponent that is not bounded above: the doubles of the binade of \<open>x\<close>
  are the multiples of \<open>2\<close> to the power \<open>binary64_exponent x - 52\<close>, and below
  the smallest normal number (exponent \<open>-1022\<close>) the subnormal numbers keep that
  spacing.
\<close>

definition round_half_even :: "real \<Rightarrow> int" where
  "round_half_even y =
     (let f = \<lfloor>y\<rfloor>; r = y - of_int f
      in if r < 1/2 then f else if 1/2 < r then f + 1 else if even f then f else f + 1)"

definition binary64_exponent :: "real \<Rightarrow> int" where
  "binary64_exponent x = max \<lfloor>log 2 \<bar>x\<bar>\<rfloor> (- 1022)"

definition round_binary64 :: "real \<Rightarrow> real" where
  "round_binary64 x =
     (if x = 0 then 0
      else of_int (round_half_even (x / 2 powr of_int (binary64_exponent x - 52)))
           * 2 powr of_int (binary64_exponent x - 52))"

definition int_truediv :: "int \<Rightarrow> int \<Rightarrow> error + real" where
  "int_truediv a b =
     (if b = 0 then Inl ZeroDivisionError
      else let q = round_binary64 (real_of_int a / real_of_int b)
           in if 2 ^ 1024 \<le> \<bar>q\<bar> then Inl OverflowError else Inr q)"

text \<open>
  \<^verbatim>\<open>probabilities.py\<close> fills \<^verbatim>\<open>defaultdict\<close>s by assignment. \<open>set_item2\<close> is
  \<^verbatim>\<open>dd[k1][k2] = v\<close> on a \<^verbatim>\<open>defaultdict\<close> of dicts: the row is created when it is
  missing, and a new key goes to the end.
\<close>

definition set_item2 :: "string \<Rightarrow> string \<Rightarrow> 'v \<Rightarrow> 'v dict dict \<Rightarrow> 'v dict dict" where
  "set_item2 k1 k2 v dd =
     AList.update k1 (AList.update k2 v (case map_of dd k1 of None \<Rightarrow> [] | Some r \<Rightarrow> r)) dd"

text \<open>The two loops of \<^verbatim>\<open>compute_cmds_probs\<close>.\<close>

definition prior_probs_step ::
  "int table \<Rightarrow> int \<Rightarrow> string \<Rightarrow> real dict \<Rightarrow> error + real dict" where
  "prior_probs_step seq1_counts total_cmds cmd prior_probs =
     ebind (getitem seq1_counts cmd) (\<lambda>c.
     ebind (int_truediv c total_cmds) (\<lambda>p.
       Inr (AList.update cmd p prior_probs)))"

definition trans_probs_step ::
  "int table table \<Rightarrow> string \<Rightarrow> string \<Rightarrow> real dict dict \<Rightarrow> error + real dict dict" where
  "trans_probs_step seq2_counts prev current trans_probs =
     ebind (getitem2 seq2_counts prev current) (\<lambda>c.
     ebind (getitem seq2_counts prev) (\<lambda>row.
     ebind (int_truediv c (sum_list (dict_values (items row))))
       (\<lambda>p. Inr (set_item2 prev current p trans_probs))))"

definition trans_probs_loop :: "int table table \<Rightarrow> error + real dict dict" where
  "trans_probs_loop seq2_counts =
     foldM (\<lambda>(prev, currents) trans_probs.
              foldM (trans_probs_step seq2_counts prev) (keys (items currents)) trans_probs)
       (items seq2_counts) []"

definition compute_cmds_probs ::
  "int table \<Rightarrow> int table table \<Rightarrow> string \<Rightarrow> error + (real table \<times> real table table)" where
  "compute_cmds_probs seq1_counts seq2_counts unk_token =
     (let total_cmds = sum_list (dict_values (items seq1_counts)) in
      ebind (foldM (prior_probs_step seq1_counts total_cmds) (keys (items seq1_counts)) [])
        (\<lambda>prior_probs.
      ebind (trans_probs_loop seq2_counts) (\<lambda>trans_probs.
      ebind (state_matrix prior_probs unk_token) (\<lambda>prior_probs'.
      ebind (state_matrix2 trans_probs unk_token) (\<lambda>trans_probs'.
        Inr (prior_probs', trans_probs'))))))"

text \<open>
  \<^verbatim>\<open>compute_params_probs\<close> and \<^verbatim>\<open>compute_values_probs\<close> are the same text with
  other variable names; \<open>cond_probs_loop\<close> and \<open>uni_probs_loop\<close> are their two loops.
\<close>

definition cond_probs_step ::
  "string \<Rightarrow> int \<Rightarrow> string \<times> int \<Rightarrow> real dict dict \<Rightarrow> error + real dict dict" where
  "cond_probs_step a n entry cond_probs =
     (case entry of (b, c) \<Rightarrow>
        ebind (int_truediv c n) (\<lambda>p.
          Inr (set_item2 a b p cond_probs)))"

definition cond_probs_loop :: "int table table \<Rightarrow> error + real dict dict" where
  "cond_probs_loop joint_counts =
     foldM (\<lambda>(a, bs) cond_probs.
              foldM (cond_probs_step a (sum_list (dict_values (items bs)))) (items bs)
                cond_probs)
       (items joint_counts) []"

definition uni_probs_loop :: "int table \<Rightarrow> error + real dict" where
  "uni_probs_loop counts =
     foldM (\<lambda>(k, c) probs.
              ebind (int_truediv c (sum_list (dict_values (items counts))))
                (\<lambda>p. Inr (AList.update k p probs)))
       (items counts) []"

definition compute_params_probs ::
  "int table \<Rightarrow> int table table \<Rightarrow> string \<Rightarrow> error + (real table \<times> real table table)" where
  "compute_params_probs param_counts cmd_param_counts unk_token =
     ebind (cond_probs_loop cmd_param_counts) (\<lambda>param_cond_cmd_probs.
     ebind (uni_probs_loop param_counts) (\<lambda>param_probs.
     ebind (state_matrix param_probs unk_token) (\<lambda>param_probs'.
     ebind (state_matrix2 param_cond_cmd_probs unk_token) (\<lambda>param_cond_cmd_probs'.
       Inr (param_probs', param_cond_cmd_probs')))))"

definition compute_values_probs ::
  "int table \<Rightarrow> int table table \<Rightarrow> string \<Rightarrow> error + (real table \<times> real table table)" where
  "compute_values_probs value_counts param_value_counts unk_token =
     ebind (cond_probs_loop param_value_counts) (\<lambda>value_cond_param_probs.
     ebind (uni_probs_loop value_counts) (\<lambda>value_probs.
     ebind (state_matrix value_probs unk_token) (\<lambda>value_probs'.
     ebind (state_matrix2 value_cond_param_probs unk_token) (\<lambda>value_cond_param_probs'.
       Inr (value_probs', value_cond_param_probs')))))"

text \<open>
  What the claims about the derived tables speak of. A well-formed nested table has
  distinct keys at both levels, as every Python dict has, and a table of counts holds no
  negative number. A flat count table is \<open>counted\<close> when it is well formed and something
  has been counted in it. \<open>holds_unknown\<close> is what the constructor of the nested table
  asks of the keys. \<open>rounded_row\<close> is the row in which every count is divided by the
  sum of the row, the quotient rounded to the nearest double, and \<open>rounded_rows\<close> the
  nested mapping of these rows.
\<close>

definition wf_table2 :: "'v table table \<Rightarrow> bool" where
  "wf_table2 t \<longleftrightarrow>
     distinct (keys (items t))
     \<and> list_all (\<lambda>row. distinct (keys (items row))) (dict_values (items t))"

definition nonneg_counts :: "int table table \<Rightarrow> bool" where
  "nonneg_counts t \<longleftrightarrow>
     list_all (\<lambda>row. list_all (\<lambda>c. 0 \<le> c) (dict_values (items row)))
       (dict_values (items t))"

definition positive_rows :: "int table table \<Rightarrow> bool" where
  "positive_rows t \<longleftrightarrow>
     list_all (\<lambda>row. 0 < sum_list (dict_values (items row))) (dict_values (items t))"

definition counted :: "int table \<Rightarrow> bool" where
  "counted s \<longleftrightarrow>
     distinct (keys (items s)) \<and> list_all (\<lambda>c. 0 \<le> c) (dict_values (items s))
     \<and> 0 < sum_list (dict_values (items s))"

definition holds_unknown :: "'v table table \<Rightarrow> string \<Rightarrow> bool" where
  "holds_unknown t unk_token \<longleftrightarrow>
     unk_token \<in> set (keys (items t))
     \<and> list_all (\<lambda>row. unk_token \<in> set (keys (items row))) (dict_values (items t))"

definition rounded_row :: "int dict \<Rightarrow> real dict" where
  "rounded_row bs =
     map (\<lambda>(b, c).
            (b, round_binary64 (real_of_int c / real_of_int (sum_list (dict_values bs)))))
       bs"

definition rounded_rows :: "int table table \<Rightarrow> real dict dict" where
  "rounded_rows t = map (\<lambda>(a, bs). (a, rounded_row (items bs))) (items t)"

text \<open>
  The probabilities of a row sum to 1 within a floating-point tolerance, in two
  readings. The sum of the stored doubles as real numbers is within \<open>2\<close> to the
  \<open>-53\<close> of 1, plus \<open>2\<close> to the \<open>-1075\<close> for every entry (the rounding error
  of a subnormal quotient). \<open>sum_doubles\<close> adds the doubles of the row one after the
  other from left to right, every addition rounded to the nearest double; for a row of
  at most \<open>2\<close> to the \<open>52\<close> entries this sum is within one more rounding error of
  size \<open>2\<close> to the \<open>-53\<close> for every entry, and for a row of at most \<open>2\<close> to
  the \<open>23\<close> entries it is within \<open>1e-9\<close> of 1.
\<close>

definition sum_doubles :: "real list \<Rightarrow> real" where
  "sum_doubles ps = fold (\<lambda>p s. round_binary64 (s + p)) ps 0"

definition sums_to_one :: "real list \<Rightarrow> bool" where
  "sums_to_one ps \<longleftrightarrow>
     \<bar>sum_list ps - 1\<bar> \<le> 1 / 2 ^ 53 + real (length ps) / 2 ^ 1075
     \<and> (length ps \<le> 2 ^ 52 \<longrightarrow>
          \<bar>sum_doubles ps - 1\<bar>
            \<le> (real (length ps) + 1) / 2 ^ 53 + real (length ps) / 2 ^ 1075)
     \<and> (length ps \<le> 2 ^ 23 \<longrightarrow> \<bar>sum_doubles ps - 1\<bar> \<le> 1 / 10 ^ 9)"

definition row_stochastic :: "real table table \<Rightarrow> bool" where
  "row_stochastic t \<longleftrightarrow>
     list_all (\<lambda>row. sums_to_one (dict_values (items row))) (dict_values (items t))"

section \<open>The counting pass\<close>

text \<open>
  \<^verbatim>\<open>compute_counts\<close> counts into \<^verbatim>\<open>defaultdict\<close>s. \<open>incr\<close> is \<^verbatim>\<open>d[k] += 1\<close>
  (a missing key starts at 0 and goes to the end), \<open>incr2\<close> is \<^verbatim>\<open>dd[k1][k2] += 1\<close>
  (a missing row starts empty), \<open>row_of\<close> is the row \<^verbatim>\<open>dd[k]\<close> that is read, and
  \<open>touch\<close> is what reading \<^verbatim>\<open>dd[k]\<close> does to a \<^verbatim>\<open>defaultdict\<close>: it creates the
  missing row. The test \<^verbatim>\<open>param in cmd_param_counts[cmd]\<close> of the smoothing is such
  a read.
\<close>

definition incr :: "string \<Rightarrow> int dict \<Rightarrow> int dict" where
  "incr k d = AList.update k ((case map_of d k of None \<Rightarrow> 0 | Some c \<Rightarrow> c) + 1) d"

definition row_of :: "'v dict dict \<Rightarrow> string \<Rightarrow> 'v dict" where
  "row_of dd k = (case map_of dd k of None \<Rightarrow> [] | Some r \<Rightarrow> r)"

definition touch :: "string \<Rightarrow> 'v dict dict \<Rightarrow> 'v dict dict" where
  "touch k dd = (case map_of dd k of None \<Rightarrow> dd @ [(k, [])] | Some r \<Rightarrow> dd)"

definition incr2 :: "string \<Rightarrow> string \<Rightarrow> int dict dict \<Rightarrow> int dict dict" where
  "incr2 k1 k2 dd = AList.update k1 (incr k2 (row_of dd k1)) dd"

text \<open>
  The counters of the parameter-only module, and the two more of the value-aware one.
  The fields are the local variables \<^verbatim>\<open>seq1_counts\<close>, \<^verbatim>\<open>seq2_counts\<close>,
  \<^verbatim>\<open>param_counts\<close>, \<^verbatim>\<open>cmd_param_counts\<close>, \<^verbatim>\<open>value_counts\<close> and
  \<^verbatim>\<open>param_value_counts\<close>.
\<close>

record counts =
  seq1_c :: "int dict"
  seq2_c :: "int dict dict"
  param_c :: "int dict"
  cmd_param_c :: "int dict dict"

record counts_pv = counts +
  value_c :: "int dict"
  param_value_c :: "int dict dict"

definition empty_counts_po :: counts where
  "empty_counts_po = \<lparr>seq1_c = [], seq2_c = [], param_c = [], cmd_param_c = []\<rparr>"

definition empty_counts_pv :: counts_pv where
  "empty_counts_pv = \<lparr>seq1_c = [], seq2_c = [], param_c = [], cmd_param_c = [],
                        value_c = [], param_value_c = []\<rparr>"

text \<open>The body of the innermost loop, over the parameters of a command, in each module.\<close>

definition count_param_po :: "string \<Rightarrow> string \<Rightarrow> counts \<Rightarrow> counts" where
  "count_param_po cmd_name p c =
     c\<lparr>param_c := incr p (param_c c), cmd_param_c := incr2 cmd_name p (cmd_param_c c)\<rparr>"

definition count_param_pv :: "string \<Rightarrow> string \<times> string \<Rightarrow> counts_pv \<Rightarrow> counts_pv" where
  "count_param_pv cmd_name pv c =
     (case pv of (p, v) \<Rightarrow>
        c\<lparr>param_c := incr p (param_c c), value_c := incr v (value_c c),
          cmd_param_c := incr2 cmd_name p (cmd_param_c c),
          param_value_c := incr2 p v (param_value_c c)\<rparr>)"

text \<open>
  The loops over the commands of a session and over the sessions are the same text in
  both modules; \<open>count_param\<close> is the innermost loop's body. The state of the loop over
  the commands is the variable \<^verbatim>\<open>prev\<close> and the counters.
\<close>

definition count_cmd ::
  "(string \<Rightarrow> 'q \<Rightarrow> 'a counts_scheme \<Rightarrow> 'a counts_scheme) \<Rightarrow> 'q list Cmd \<Rightarrow>
   string \<times> 'a counts_scheme \<Rightarrow> string \<times> 'a counts_scheme" where
  "count_cmd count_param cmd st =
     (case st of (prev, c) \<Rightarrow>
        (name cmd,
         fold (count_param (name cmd)) (params cmd)
           (c\<lparr>seq1_c := incr (name cmd) (seq1_c c),
              seq2_c := incr2 prev (name cmd) (seq2_c c)\<rparr>)))"

definition count_session ::
  "(string \<Rightarrow> 'q \<Rightarrow> 'a counts_scheme \<Rightarrow> 'a counts_scheme) \<Rightarrow> string \<Rightarrow> string \<Rightarrow>
   'q list Cmd list \<Rightarrow> 'a counts_scheme \<Rightarrow> 'a counts_scheme" where
  "count_session count_param start_token end_token session c =
     (case fold (count_cmd count_param) session
             (start_token, c\<lparr>seq1_c := incr start_token (seq1_c c)\<rparr>) of
        (prev, c') \<Rightarrow>
          c'\<lparr>seq2_c := incr2 prev end_token (seq2_c c'),
             seq1_c := incr end_token (seq1_c c')\<rparr>)"

text \<open>Laplace smoothing of the commands: the body of the double loop, and the loop.\<close>

definition smooth_cmd_pair ::
  "string \<Rightarrow> string \<Rightarrow> string \<Rightarrow> string \<Rightarrow> 'a counts_scheme \<Rightarrow> 'a counts_scheme" where
  "smooth_cmd_pair start_token end_token cmd1 cmd2 c =
     (if cmd1 \<noteq> end_token \<and> cmd2 \<noteq> start_token
      then c\<lparr>seq1_c := incr cmd2 (incr cmd1 (seq1_c c)),
             seq2_c := incr2 cmd1 cmd2 (seq2_c c)\<rparr>
      else c)"

definition smooth_cmds ::
  "string \<Rightarrow> string \<Rightarrow> string list \<Rightarrow> 'a counts_scheme \<Rightarrow> 'a counts_scheme" where
  "smooth_cmds start_token end_token cmds c =
     fold (\<lambda>cmd1. fold (smooth_cmd_pair start_token end_token cmd1) cmds) cmds c"

text \<open>
  Laplace smoothing of the parameters given the commands and of the values given the
  parameters: one text, on a pair of an individual and a conditional counter.
\<close>

definition smooth_cond_pair ::
  "string \<Rightarrow> string \<Rightarrow> string \<Rightarrow> int dict \<times> int dict dict \<Rightarrow> int dict \<times> int dict dict" where
  "smooth_cond_pair unk_token a b st =
     (case st of (uni, joint) \<Rightarrow>
        (let joint' = touch a joint
         in if b \<in> set (keys (row_of joint' a)) \<or> b = unk_token
            then (incr b uni, incr2 a b joint')
            else (uni, joint')))"

definition smooth_cond ::
  "string \<Rightarrow> string list \<Rightarrow> string list \<Rightarrow> int dict \<times> int dict dict \<Rightarrow>
   int dict \<times> int dict dict" where
  "smooth_cond unk_token as bs st = fold (\<lambda>a. fold (smooth_cond_pair unk_token a) bs) as st"

text \<open>
  The counters after the loop over the sessions, the command vocabulary
  \<^verbatim>\<open>cmds = list(seq1_counts.keys()) + [unk_token]\<close>, the counters after the smoothing,
  and the tables returned.
\<close>

definition counted_po :: "string list Cmd list list \<Rightarrow> string \<Rightarrow> string \<Rightarrow> counts" where
  "counted_po sessions start_token end_token =
     fold (count_session count_param_po start_token end_token) sessions empty_counts_po"

definition counted_pv ::
  "(string \<times> string) list Cmd list list \<Rightarrow> string \<Rightarrow> string \<Rightarrow> counts_pv" where
  "counted_pv sessions start_token end_token =
     fold (count_session count_param_pv start_token end_token) sessions empty_counts_pv"

definition cmds_vocab :: "'a counts_scheme \<Rightarrow> string \<Rightarrow> string list" where
  "cmds_vocab c unk_token = keys (seq1_c c) @ [unk_token]"

definition smoothed_po ::
  "string list Cmd list list \<Rightarrow> string \<Rightarrow> string \<Rightarrow> string \<Rightarrow> counts" where
  "smoothed_po sessions start_token end_token unk_token =
     (let c = counted_po sessions start_token end_token;
          cmds = cmds_vocab c unk_token;
          c1 = smooth_cmds start_token end_token cmds c;
          params = keys (param_c c1) @ [unk_token]
      in case smooth_cond unk_token cmds params (param_c c1, cmd_param_c c1) of
           (pc, cpc) \<Rightarrow> c1\<lparr>param_c := pc, cmd_param_c := cpc\<rparr>)"

definition smoothed_pv ::
  "(string \<times> string) list Cmd list list \<Rightarrow> string \<Rightarrow> string \<Rightarrow> string \<Rightarrow> counts_pv" where
  "smoothed_pv sessions start_token end_token unk_token =
     (let c = counted_pv sessions start_token end_token;
          cmds = cmds_vocab c unk_token;
          c1 = smooth_cmds start_token end_token cmds c;
          params = keys (param_c c1) @ [unk_token]
      in case smooth_cond unk_token cmds params (param_c c1, cmd_param_c c1) of
           (pc, cpc) \<Rightarrow>
             (let vals = keys (value_c c1) @ [unk_token]
              in case smooth_cond unk_token params vals (value_c c1, param_value_c c1) of
                   (vc, pvc) \<Rightarrow>
                     c1\<lparr>param_c := pc, cmd_param_c := cpc,
                        value_c := vc, param_value_c := pvc\<rparr>))"

definition compute_counts_po ::
  "string list Cmd list list \<Rightarrow> string \<Rightarrow> string \<Rightarrow> string \<Rightarrow>
   error + (int table \<times> int table table \<times> int table \<times> int table table)" where
  "compute_counts_po sessions start_token end_token unk_token =
     (let c = smoothed_po sessions start_token end_token unk_token in
      ebind (state_matrix (seq1_c c) unk_token) (\<lambda>seq1_counts.
      ebind (state_matrix2 (seq2_c c) unk_token) (\<lambda>seq2_counts.
      ebind (state_matrix (param_c c) unk_token) (\<lambda>param_counts.
      ebind (state_matrix2 (cmd_param_c c) unk_token) (\<lambda>cmd_param_counts.
        Inr (seq1_counts, seq2_counts, param_counts, cmd_param_counts))))))"

definition compute_counts_pv ::
  "(string \<times> string) list Cmd list list \<Rightarrow> string \<Rightarrow> string \<Rightarrow> string \<Rightarrow>
   error + (int table \<times> int table table \<times> int table \<times> int table table
            \<times> int table \<times> int table table)" where
  "compute_counts_pv sessions start_token end_token unk_token =
     (let c = smoothed_pv sessions start_token end_token unk_token in
      ebind (state_matrix (seq1_c c) unk_token) (\<lambda>seq1_counts.
      ebind (state_matrix2 (seq2_c c) unk_token) (\<lambda>seq2_counts.
      ebind (state_matrix (param_c c) unk_token) (\<lambda>param_counts.
      ebind (state_matrix2 (cmd_param_c c) unk_token) (\<lambda>cmd_param_counts.
      ebind (state_matrix (value_c c) unk_token) (\<lambda>value_counts.
      ebind (state_matrix2 (param_value_c c) unk_token) (\<lambda>param_value_counts.
        Inr (seq1_counts, seq2_counts, param_counts, cmd_param_counts,
             value_counts, param_value_counts))))))))"

text \<open>
  What the proofs about the counters speak of. \<open>rk\<close> is the set of the pairs of a
  first and a second key of a nested counter; in \<open>pos1\<close> and \<open>pos2\<close> every stored count
  is positive.
\<close>

definition rk :: "'v dict dict \<Rightarrow> (string \<times> string) set" where
  "rk dd = {(k1, k2). k2 \<in> set (keys (row_of dd k1))}"

definition pos1 :: "int dict \<Rightarrow> bool" where
  "pos1 d \<longleftrightarrow> (\<forall>k c. map_of d k = Some c \<longrightarrow> 0 < c)"

definition pos2 :: "int dict dict \<Rightarrow> bool" where
  "pos2 dd \<longleftrightarrow> (\<forall>k. pos1 (row_of dd k))"

text \<open>
  The invariant of the loop over the sessions: every first key of the bigram counter and
  of the command-parameter counter is a counted command, no first key of the bigram
  counter is in the set \<open>E\<close> of excluded names, the first keys are distinct, and the
  stored bigram counts are positive. \<open>param_ok\<close> is what the invariant needs of the
  innermost loop's body, \<open>inv_pv\<close> is the part of the invariant on the two counters of
  the value-aware module, and \<open>session_inv\<close> is the invariant of the loop over the
  commands of one session (with the variable \<^verbatim>\<open>prev\<close>).
\<close>

definition inv_counted :: "string set \<Rightarrow> 'a counts_scheme \<Rightarrow> bool" where
  "inv_counted E c \<longleftrightarrow>
     set (keys (seq2_c c)) \<subseteq> set (keys (seq1_c c))
     \<and> set (keys (cmd_param_c c)) \<subseteq> set (keys (seq1_c c))
     \<and> set (keys (seq2_c c)) \<inter> E = {}
     \<and> distinct (keys (seq2_c c)) \<and> distinct (keys (cmd_param_c c))
     \<and> pos2 (seq2_c c)"

definition param_ok :: "(string \<Rightarrow> 'q \<Rightarrow> 'a counts_scheme \<Rightarrow> 'a counts_scheme) \<Rightarrow> bool" where
  "param_ok cp \<longleftrightarrow>
     (\<forall>n p c. seq1_c (cp n p c) = seq1_c c \<and> seq2_c (cp n p c) = seq2_c c
        \<and> set (keys (cmd_param_c (cp n p c))) \<subseteq> insert n (set (keys (cmd_param_c c)))
        \<and> (distinct (keys (cmd_param_c c)) \<longrightarrow> distinct (keys (cmd_param_c (cp n p c)))))"

definition inv_pv :: "counts_pv \<Rightarrow> bool" where
  "inv_pv c \<longleftrightarrow>
     set (keys (param_value_c c)) \<subseteq> set (keys (param_c c))
     \<and> distinct (keys (param_value_c c))"

definition session_inv :: "string set \<Rightarrow> string \<times> 'a counts_scheme \<Rightarrow> bool" where
  "session_inv E st \<longleftrightarrow>
     inv_counted E (snd st) \<and> fst st \<in> set (keys (seq1_c (snd st))) \<and> fst st \<notin> E"

text \<open>
  The command vocabulary in the words of the specification: every command name observed
  in the counting pass (with the start and end tokens, which are counted once there is a
  session) and the unknown token. \<open>meets_invariant\<close> and \<open>meets_invariant2\<close> are the
  construction invariant of a flat and of a nested table, and \<open>wrap_rows\<close> is the
  nested table that the constructor builds.
\<close>

definition vocabulary :: "'q Cmd list list \<Rightarrow> string \<Rightarrow> string \<Rightarrow> string \<Rightarrow> string set" where
  "vocabulary sessions start_token end_token unk_token =
     (if sessions = [] then {} else {start_token, end_token})
     \<union> (\<Union>session\<in>set sessions. name ` set session) \<union> {unk_token}"

definition meets_invariant :: "'v dict \<Rightarrow> string \<Rightarrow> bool" where
  "meets_invariant states unk_token \<longleftrightarrow> states \<noteq> [] \<and> unk_token \<in> set (keys states)"

definition meets_invariant2 :: "'v dict dict \<Rightarrow> string \<Rightarrow> bool" where
  "meets_invariant2 states unk_token \<longleftrightarrow>
     states \<noteq> [] \<and> unk_token \<in> set (keys states)
     \<and> list_all (\<lambda>row. unk_token \<in> set (keys row)) (dict_values states)"

definition wrap_rows :: "'v dict dict \<Rightarrow> string \<Rightarrow> 'v table table" where
  "wrap_rows states unk_token =
     StateMatrix (map (\<lambda>(k, row). (k, StateMatrix row unk_token)) states) unk_token"

section \<open>Properties of the likelihood engine\<close>

subsection \<open>Error values and loops\<close>

lemma ebind_Inr_iff: "ebind m f = Inr y \<longleftrightarrow> (\<exists>v. m = Inr v \<and> f v = Inr y)"
  by (cases m) (simp_all add: ebind_def)

lemma ebind_simps [simp]: "ebind (Inl e) f = Inl e" "ebind (Inr v) f = f v"
  by (simp_all add: ebind_def)

lemma foldM_append:
  "foldM f (xs @ ys) s = (case foldM f xs s of Inl e \<Rightarrow> Inl e | Inr s' \<Rightarrow> foldM f ys s')"
  by (induction xs arbitrary: s) (auto split: sum.splits)

lemma foldM_invariant:
  assumes "foldM f xs s = Inr s'" and "P s"
    and "\<And>x t t'. x \<in> set xs \<Longrightarrow> P t \<Longrightarrow> f x t = Inr t' \<Longrightarrow> P t'"
  shows "P s'"
  using assms
proof (induction xs arbitrary: s)
  case Nil
  then show ?case by simp
next
  case (Cons x xs)
  from Cons.prems(1) obtain t where t: "f x s = Inr t" and rest: "foldM f xs t = Inr s'"
    by (auto split: sum.splits)
  have "P t" by (rule Cons.prems(3) [of x s t]) (use Cons.prems(2) t in simp_all)
  show ?case
  proof (rule Cons.IH [OF rest \<open>P t\<close>])
    fix y u u' assume "y \<in> set xs" "P u" "f y u = Inr u'"
    then show "P u'" using Cons.prems(3) [of y u u'] by simp
  qed
qed


lemmas window_eval =
  compute_likelihood_window_po_def compute_likelihood_window_pv_def likelihood_window_def
  window_step_def py_nth_def getitem2_def ebind_def py_truediv_def
  compute_prob_setofparams_given_cmd_po_def compute_prob_setofparams_given_cmd_pv_def

text \<open>
  Claim C1 (window likelihood is the prior of the first command times the chain of
  transitions from each command to the next). The loop of
  \<^verbatim>\<open>compute_likelihood_window\<close> counts \<open>i\<close> from 0 over \<^verbatim>\<open>window[1:]\<close> and
  reads \<^verbatim>\<open>window[i - 1], window[i]\<close>, so its first pass multiplies by the transition
  from the last command of the window to the first one. On the window A, B with
  prior(A) = 1/2, trans(A, B) = 1/4, trans(B, A) = 1/8 and no parameters, both modules
  return 1/2 * 1/8 = 1/16, while the chain of the specification is 1/2 * 1/4 = 1/8.
\<close>

theorem C1_window_uses_wrong_transition:
  "compute_likelihood_window_po
     [\<lparr>name = ''A'', params = []\<rparr>, \<lparr>name = ''B'', params = []\<rparr>]
     (Dict [(''A'', 1/2), (''B'', 1/2)])
     (Dict [(''A'', Dict [(''A'', 3/4), (''B'', 1/4)]),
            (''B'', Dict [(''A'', 1/8), (''B'', 7/8)])])
     (Dict []) False False None None = Inr (Val (1/16))
   \<and> compute_likelihood_window_pv
     [\<lparr>name = ''A'', params = []\<rparr>, \<lparr>name = ''B'', params = []\<rparr>]
     (Dict [(''A'', 1/2), (''B'', 1/2)])
     (Dict [(''A'', Dict [(''A'', 3/4), (''B'', 1/4)]),
            (''B'', Dict [(''A'', 1/8), (''B'', 7/8)])])
     (Dict []) (Dict []) {} False False None None = Inr (Val (1/16))
   \<and> spec_window_likelihood
     (\<lambda>c ps. compute_prob_setofparams_given_cmd_po c ps (Dict []) True)
     [\<lparr>name = ''A'', params = []\<rparr>, \<lparr>name = ''B'', params = []\<rparr>]
     (Dict [(''A'', 1/2), (''B'', 1/2)])
     (Dict [(''A'', Dict [(''A'', 3/4), (''B'', 1/4)]),
            (''B'', Dict [(''A'', 1/8), (''B'', 7/8)])]) = Inr (Val (1/8))
   \<and> spec_window_likelihood
     (\<lambda>c ps. compute_prob_setofparams_given_cmd_pv c ps (Dict []) (Dict []) {} True)
     [\<lparr>name = ''A'', params = []\<rparr>, \<lparr>name = ''B'', params = []\<rparr>]
     (Dict [(''A'', 1/2), (''B'', 1/2)])
     (Dict [(''A'', Dict [(''A'', 3/4), (''B'', 1/4)]),
            (''B'', Dict [(''A'', 1/8), (''B'', 7/8)])]) = Inr (Val (1/8))"
  by (simp add: window_eval)

text \<open>
  Claim C4 (an empty reference row, \<open>k = 0\<close>, with geometric mean requested: the
  un-normalised product is returned and no division by zero is raised). The value-aware
  module guards the exponent with \<^verbatim>\<open>if k > 0\<close> and returns the empty product 1. The
  parameter-only module computes \<^verbatim>\<open>1 / k\<close> with no guard and raises
  \<^verbatim>\<open>ZeroDivisionError\<close>: for the command A with the parameter x and the table
  \<^verbatim>\<open>{"A": {}}\<close>.
\<close>

theorem C4_params_only_divides_by_zero:
  "compute_prob_setofparams_given_cmd_po ''A'' [''x''] (Dict [(''A'', Dict [])]) True
     = Inl ZeroDivisionError
   \<and> compute_prob_setofparams_given_cmd_pv ''A'' [(''x'', ''1'')] (Dict [(''A'', Dict [])])
       (Dict []) {} True = Inr 1"
  by (simp add: window_eval)

subsection \<open>The rarest window\<close>

lemma py_slice_window:
  assumes "0 < w" and "int i + w \<le> int (length xs)"
  shows "py_slice xs (int i) (int i + w) = take (nat w) (drop i xs)"
  using assms by (simp add: py_slice_def Let_def min_def)

lemma py_slice_take_drop:
  assumes "0 < w"
  shows "py_slice xs (int i) (int i + w) = take (nat w) (drop i xs)"
proof (cases "int i + w \<le> int (length xs)")
  case True
  then show ?thesis using assms by (rule_tac py_slice_window)
next
  case False
  show ?thesis
  proof (cases "i \<le> length xs")
    case True
    with False assms have "py_slice xs (int i) (int i + w) = take (length xs - i) (drop i xs)"
      by (simp add: py_slice_def Let_def min_def nat_diff_distrib' of_nat_diff)
    also have "\<dots> = take (nat w) (drop i xs)" using False True by simp
    finally show ?thesis .
  next
    case False
    then show ?thesis using assms by (simp add: py_slice_def Let_def min_def)
  qed
qed

lemma likelihood_window_Val:
  assumes "likelihood_window pp window prior tr us ue st en = Inr l" and "window \<noteq> []"
  shows "\<exists>r. l = Val r"
  using assms
  by (auto simp: likelihood_window_def ebind_Inr_iff split: if_splits prod.splits)

lemma lik_pow_Val: "lik_pow (Val x) e = Inr l \<Longrightarrow> \<exists>r. l = Val r"
  by (auto simp: lik_pow_def ebind_Inr_iff)

lemma windows_step_Val:
  assumes "windows_step pp sess prior tr w use st en g i acc = Inr acc'"
    and "0 < w" and "int i + w \<le> int (length sess)"
    and "\<forall>l \<in> set acc. \<exists>r. l = Val r"
  shows "\<forall>l \<in> set acc'. \<exists>r. l = Val r"
proof -
  have ne: "py_slice sess (int i) (int i + w) \<noteq> []"
    using assms(2,3) by (simp add: py_slice_window)
  from assms(1) obtain l l' where
    l: "likelihood_window pp (py_slice sess (int i) (int i + w)) prior tr
          (if i = 0 then use else False) False st en = Inr l"
    and l': "(if g then ebind (py_truediv 1 (real_of_int w)) (\<lambda>e. lik_pow l e) else Inr l) = Inr l'"
    and acc': "acc' = acc @ [l']"
    by (auto simp: windows_step_def Let_def ebind_Inr_iff)
  from likelihood_window_Val [OF l ne] obtain r where r: "l = Val r" by blast
  have "\<exists>r'. l' = Val r'"
    using l' r by (auto simp: ebind_Inr_iff split: if_splits dest: lik_pow_Val)
  then show ?thesis using acc' assms(4) by auto
qed

lemma windows_all_Val:
  assumes "likelihood_windows_in_session pp emp session prior tr w use st en g = Inr liks"
    and "0 < w"
  shows "\<forall>l \<in> set liks. \<exists>r. l = Val r"
proof -
  define sess where "sess = session @ (if use then [\<lparr>name = the en, params = emp\<rparr>] else [])"
  have f: "foldM (windows_step pp sess prior tr w use st en g)
             [0..<nat (int (length sess) - w + 1)] [] = Inr liks"
    using assms(1) by (simp add: likelihood_windows_in_session_def Let_def sess_def split: if_splits)
  show ?thesis
  proof (rule foldM_invariant [OF f, where P = "\<lambda>acc. \<forall>l \<in> set acc. \<exists>r. l = Val r"])
    show "\<forall>l\<in>set []. \<exists>r. l = Val r" by simp
  next
    fix x t t'
    assume x: "x \<in> set [0..<nat (int (length sess) - w + 1)]"
      and t: "\<forall>l\<in>set t. \<exists>r. l = Val r"
      and step: "windows_step pp sess prior tr w use st en g x t = Inr t'"
    from x have "int x + w \<le> int (length sess)" by auto
    from windows_step_Val [OF step assms(2) this t]
    show "\<forall>l\<in>set t'. \<exists>r. l = Val r" .
  qed
qed

lemma all_Val_map: "\<forall>l \<in> set liks. \<exists>r. l = Val r \<Longrightarrow> \<exists>rs. liks = map Val rs"
proof (induction liks)
  case Nil
  then show ?case by simp
next
  case (Cons a liks)
  then obtain r rs where "a = Val r" "liks = map Val rs" by auto
  then have "a # liks = map Val (r # rs)" by simp
  then show ?case by (rule exI [of _ "r # rs"])
qed

lemma fold_min_Val:
  "fold (\<lambda>item cur. if lik_lt item cur then item else cur) (map Val rs) (Val x)
     = Val (fold min rs x)"
  by (induction rs arbitrary: x) (auto simp: min_def)

lemma py_min_Val:
  assumes "rs \<noteq> []"
  shows "py_min (map Val rs) = Inr (Val (Min (set rs)))"
proof (cases rs)
  case Nil
  then show ?thesis using assms by simp
next
  case (Cons a list)
  have "Min (set (a # list)) = fold min list a" by (rule Min.set_eq_fold)
  then show ?thesis using Cons by (simp add: py_min_def fold_min_Val)
qed

lemma py_index_first:
  "x \<in> set ys \<Longrightarrow> \<exists>i. py_index ys x = Inr i \<and> i < length ys \<and> ys ! i = x \<and> (\<forall>j<i. ys ! j \<noteq> x)"
proof (induction ys)
  case Nil
  then show ?case by simp
next
  case (Cons y ys)
  show ?case
  proof (cases "y = x")
    case True
    then show ?thesis by simp
  next
    case False
    with Cons obtain i where i: "py_index ys x = Inr i" "i < length ys" "ys ! i = x"
      "\<forall>j<i. ys ! j \<noteq> x" by auto
    have "\<forall>j<Suc i. (y # ys) ! j \<noteq> x"
      using False i(4) by (auto simp: nth_Cons split: nat.splits)
    then show ?thesis using False i by auto
  qed
qed

lemma rarest_window_min:
  assumes w: "0 < w"
    and liks: "likelihood_windows_in_session pp emp session prior tr w use
                 (Some s) (Some e) g = Inr liks"
    and ne: "liks \<noteq> []"
  shows "\<exists>ind rs. liks = map Val rs \<and> ind < length rs \<and> rs ! ind = Min (set rs)
           \<and> (\<forall>j<ind. rs ! ind < rs ! j)
           \<and> rarest_window pp emp session prior tr w use s e g
               = Inr (take (nat w) (drop ind session), Val (Min (set rs)))"
proof -
  from all_Val_map [OF windows_all_Val [OF liks w]] obtain rs where rs: "liks = map Val rs"
    by blast
  with ne have rs_ne: "rs \<noteq> []" by auto
  let ?m = "Min (set rs)"
  have m_in: "?m \<in> set rs" using rs_ne by simp
  then have "Val ?m \<in> set (map Val rs)" by simp
  from py_index_first [OF this] obtain i where
    i: "py_index (map Val rs) (Val ?m) = Inr i" "i < length (map Val rs)"
       "map Val rs ! i = Val ?m" "\<forall>j<i. map Val rs ! j \<noteq> Val ?m"
    by blast
  have i_len: "i < length rs" using i(2) by simp
  have at_i: "rs ! i = ?m" using i(3) i_len by simp
  have before: "\<forall>j<i. rs ! i < rs ! j"
  proof (intro allI impI)
    fix j assume j: "j < i"
    then have jl: "j < length rs" using i_len by simp
    have "rs ! j \<noteq> ?m" using i(4) j jl by auto
    moreover have "?m \<le> rs ! j" using jl by simp
    ultimately show "rs ! i < rs ! j" using at_i by simp
  qed
  have "rarest_window pp emp session prior tr w use s e g
          = Inr (py_slice session (int i) (int i + w), Val ?m)"
    using liks rs rs_ne i(1) by (simp add: rarest_window_def py_min_Val)
  then have "rarest_window pp emp session prior tr w use s e g
          = Inr (take (nat w) (drop i session), Val ?m)"
    by (simp add: py_slice_take_drop [OF w])
  with rs i_len at_i before show ?thesis by blast
qed

lemma short_session_no_windows:
  assumes "int (length session) + (if use then 1 else 0) < w"
  shows "rarest_window pp emp session prior tr w use s e g = Inr ([], NaN)"
proof (cases use)
  case True
  then have "nat (int (length (session @ [\<lparr>name = e, params = emp\<rparr>])) - w + 1) = 0"
    using assms by simp
  then have "likelihood_windows_in_session pp emp session prior tr w use (Some s) (Some e) g = Inr []"
    using True by (simp add: likelihood_windows_in_session_def Let_def del: length_append)
  then show ?thesis by (simp add: rarest_window_def)
next
  case False
  then have "nat (int (length session) - w + 1) = 0"
    using assms by simp
  then have "likelihood_windows_in_session pp emp session prior tr w use (Some s) (Some e) g = Inr []"
    using False by (simp add: likelihood_windows_in_session_def Let_def)
  then show ?thesis by (simp add: rarest_window_def)
qed

lemmas session_eval =
  compute_likelihood_windows_in_session_po_def compute_likelihood_windows_in_session_pv_def
  rarest_window_session_po_def rarest_window_session_pv_def rarest_window_def
  likelihood_windows_in_session_def windows_step_def py_slice_def py_min_def lik_pow_def
  likelihood_window_def
  window_step_def py_nth_def getitem2_def ebind_def py_truediv_def
  compute_prob_setofparams_given_cmd_po_def compute_prob_setofparams_given_cmd_pv_def

text \<open>
  Claim C2 (when at least one sliding window exists, the rarest window is the
  sub-sequence of the session at the position of the minimum likelihood, with that
  likelihood; of several minima the earliest position is taken). Window lengths are
  positive. The sliding-window likelihoods are then all numbers \<open>rs\<close>; the position
  \<open>ind\<close> returned holds their minimum, every earlier position holds a strictly greater
  likelihood, and the window is the slice \<^verbatim>\<open>session[ind:ind + w]\<close>.
\<close>

theorem C2_rarest_window_is_first_minimum:
  assumes "0 < w"
  shows "(compute_likelihood_windows_in_session_po session prior tr pcc w use (Some s) (Some e) g
            = Inr liks \<and> liks \<noteq> [] \<longrightarrow>
          (\<exists>ind rs. liks = map Val rs \<and> ind < length rs \<and> rs ! ind = Min (set rs)
             \<and> (\<forall>j<ind. rs ! ind < rs ! j)
             \<and> rarest_window_session_po session prior tr pcc w use s e g
                 = Inr (take (nat w) (drop ind session), Val (Min (set rs)))))
       \<and> (compute_likelihood_windows_in_session_pv session' prior tr pcc vcp mp w use (Some s) (Some e) g
            = Inr liks' \<and> liks' \<noteq> [] \<longrightarrow>
          (\<exists>ind rs. liks' = map Val rs \<and> ind < length rs \<and> rs ! ind = Min (set rs)
             \<and> (\<forall>j<ind. rs ! ind < rs ! j)
             \<and> rarest_window_session_pv session' prior tr pcc vcp mp w use s e g
                 = Inr (take (nat w) (drop ind session'), Val (Min (set rs)))))"
  using assms
  by (auto simp: compute_likelihood_windows_in_session_po_def rarest_window_session_po_def
      compute_likelihood_windows_in_session_pv_def rarest_window_session_pv_def
      dest!: rarest_window_min)

theorem C2_rarest_window_witness:
  "(0::int) < 1
   \<and> compute_likelihood_windows_in_session_po
       [\<lparr>name = ''A'', params = []\<rparr>, \<lparr>name = ''B'', params = []\<rparr>,
        \<lparr>name = ''C'', params = []\<rparr>]
       (Dict [(''A'', 1/8), (''B'', 1/2), (''C'', 1/8)]) (Dict []) (Dict [])
       1 False (Some ''##START##'') (Some ''##END##'') False
     = Inr [Val (1/8), Val (1/2), Val (1/8)]
   \<and> rarest_window_session_po
       [\<lparr>name = ''A'', params = []\<rparr>, \<lparr>name = ''B'', params = []\<rparr>,
        \<lparr>name = ''C'', params = []\<rparr>]
       (Dict [(''A'', 1/8), (''B'', 1/2), (''C'', 1/8)]) (Dict []) (Dict [])
       1 False ''##START##'' ''##END##'' False
     = Inr ([\<lparr>name = ''A'', params = []\<rparr>], Val (1/8))
   \<and> compute_likelihood_windows_in_session_pv
       [\<lparr>name = ''A'', params = []\<rparr>, \<lparr>name = ''B'', params = []\<rparr>,
        \<lparr>name = ''C'', params = []\<rparr>]
       (Dict [(''A'', 1/2), (''B'', 1/8), (''C'', 1/8)]) (Dict []) (Dict []) (Dict []) {}
       1 False (Some ''##START##'') (Some ''##END##'') False
     = Inr [Val (1/2), Val (1/8), Val (1/8)]
   \<and> rarest_window_session_pv
       [\<lparr>name = ''A'', params = []\<rparr>, \<lparr>name = ''B'', params = []\<rparr>,
        \<lparr>name = ''C'', params = []\<rparr>]
       (Dict [(''A'', 1/2), (''B'', 1/8), (''C'', 1/8)]) (Dict []) (Dict []) (Dict []) {}
       1 False ''##START##'' ''##END##'' False
     = Inr ([\<lparr>name = ''B'', params = []\<rparr>], Val (1/8))"
  using C2_rarest_window_is_first_minimum [of 1
      "[\<lparr>name = ''A'', params = []\<rparr>, \<lparr>name = ''B'', params = []\<rparr>,
        \<lparr>name = ''C'', params = []\<rparr>]"
      "Dict [(''A'', 1/8), (''B'', 1/2), (''C'', 1/8)]" "Dict []" "Dict []" False
      "''##START##''" "''##END##''" False "[Val (1/8), Val (1/2), Val (1/8)]"]
  by (simp add: session_eval upt_rec)

text \<open>
  Claim C3 (an empty or too short session gives an empty window and NaN, whatever
  \<^verbatim>\<open>use_start_end_tokens\<close> is). With the flag set the code first appends the
  end-token command, so a session one shorter than the window still has one window: the
  empty session with window length 1 is scored as the single window of the end token and
  gets a number, not NaN.
\<close>

theorem C3_empty_session_with_end_token_is_scored:
  "rarest_window_session_po []
     (Dict [(''A'', 1/2), (''##UNK##'', 1/2)])
     (Dict [(''##START##'', Dict [(''A'', 1/2), (''##END##'', 1/2)])])
     (Dict []) 1 True ''##START##'' ''##END##'' False
   \<noteq> Inr ([], NaN)
   \<and> rarest_window_session_pv []
     (Dict [(''A'', 1/2), (''##UNK##'', 1/2)])
     (Dict [(''##START##'', Dict [(''A'', 1/2), (''##END##'', 1/2)])])
     (Dict []) (Dict []) {} 1 True ''##START##'' ''##END##'' False
   \<noteq> Inr ([], NaN)"
  by (simp add: session_eval upt_rec)

text \<open>
  Claim C3 as amended: a session whose length, counting the end-token command that is
  appended when \<^verbatim>\<open>use_start_end_tokens\<close> is set, is less than the window length gives
  an empty window and NaN, in both modules and whatever the tables are.
\<close>

theorem C3_short_session_gives_empty_window_and_nan:
  "(int (length session) + (if use then 1 else 0) < w \<longrightarrow>
      rarest_window_session_po session prior tr pcc w use s e g = Inr ([], NaN))
   \<and> (int (length session') + (if use then 1 else 0) < w \<longrightarrow>
      rarest_window_session_pv session' prior tr pcc vcp mp w use s e g = Inr ([], NaN))"
  by (simp add: rarest_window_session_po_def rarest_window_session_pv_def
      short_session_no_windows)

theorem C3_short_session_witness:
  "rarest_window_session_po [\<lparr>name = ''A'', params = []\<rparr>]
     (Dict []) (Dict []) (Dict []) 3 True ''##START##'' ''##END##'' True = Inr ([], NaN)
   \<and> rarest_window_session_pv [\<lparr>name = ''A'', params = [(''p'', ''v'')]\<rparr>]
     (Dict []) (Dict []) (Dict []) (Dict []) {} 3 True ''##START##'' ''##END##'' True
     = Inr ([], NaN)"
  using C3_short_session_gives_empty_window_and_nan [of
      "[\<lparr>name = ''A'', params = []\<rparr>]" True 3 "Dict []" "Dict []" "Dict []"
      "''##START##''" "''##END##''" True "[\<lparr>name = ''A'', params = [(''p'', ''v'')]\<rparr>]"
      "Dict []" "{}"]
  by simp

section \<open>Properties of the tables with a fallback\<close>

lemma map_of_wrap_rows:
  "map_of (map (\<lambda>(k, row). (k, StateMatrix row u)) states) k
     = map_option (\<lambda>row. StateMatrix row u) (map_of states k)"
  by (induction states) auto

lemma map_of_None_keys: "map_of d k = None \<longleftrightarrow> k \<notin> set (keys d)"
  by (simp add: keys_def map_of_eq_None_iff)

lemma in_keys_Some: "k \<in> set (keys d) \<Longrightarrow> \<exists>v. map_of d k = Some v"
  using map_of_None_keys [of d k] by auto

lemma state_matrix2_rows:
  assumes "state_matrix2 states u = Inr T" and "map_of states k = Some row"
  shows "u \<in> set (keys row)"
proof -
  from assms(2) have "(k, row) \<in> set states" by (rule map_of_SomeD)
  then have "row \<in> set (dict_values states)" by (force simp: dict_values_def)
  moreover have "list_all (\<lambda>row. u \<in> set (keys row)) (dict_values states)"
    using assms(1) by (simp add: state_matrix2_def split: if_splits)
  ultimately show ?thesis by (simp add: list_all_iff)
qed

lemma state_matrix_flat:
  assumes "state_matrix states u = Inr T"
  shows "\<exists>v. getitem T u = Inr v"
    and "k \<notin> set (keys states) \<Longrightarrow> getitem T k = getitem T u"
    and "map_of states k' = Some v' \<Longrightarrow> getitem T k' = Inr v'"
proof -
  from assms have T: "T = StateMatrix states u" and u: "u \<in> set (keys states)"
    by (auto simp: state_matrix_def split: if_splits)
  from in_keys_Some [OF u] show "\<exists>v. getitem T u = Inr v" by (auto simp: T)
  show "k \<notin> set (keys states) \<Longrightarrow> getitem T k = getitem T u"
    using in_keys_Some [OF u] by (auto simp: T map_of_None_keys [symmetric])
  show "map_of states k' = Some v' \<Longrightarrow> getitem T k' = Inr v'" by (simp add: T)
qed

lemma state_matrix2_present:
  assumes "state_matrix2 states u = Inr T" and "map_of states k1 = Some row"
  shows "getitem T k1 = Inr (StateMatrix row u)"
  using assms by (auto simp: state_matrix2_def map_of_wrap_rows split: if_splits)

lemma state_matrix2_absent:
  assumes "state_matrix2 states u = Inr T" and "k1 \<notin> set (keys states)"
  shows "getitem T k1 = getitem T u"
  using assms
  by (auto simp: state_matrix2_def map_of_wrap_rows map_of_None_keys [symmetric] split: if_splits)

lemma state_matrix2_unk_row:
  assumes "state_matrix2 states u = Inr T"
  shows "\<exists>row. map_of states u = Some row"
  using assms by (auto simp: state_matrix2_def split: if_splits dest: in_keys_Some)

text \<open>
  Claim C8 (lookup in a table built with unknown token \<open>u\<close>): a key that was not
  present at construction gives the value stored under \<open>u\<close>; in a nested table two
  absent keys give the entry under \<open>u\<close>, \<open>u\<close>, and a present first key with a second
  key absent from its sub-table gives that sub-table's entry under \<open>u\<close>; a present key
  gives the stored value. The values the fallbacks are compared with exist: the lookups
  on the right are no errors.
\<close>

theorem C8_lookup_falls_back_to_unknown:
  "(state_matrix states u = Inr T \<longrightarrow>
      (\<exists>v. getitem T u = Inr v)
      \<and> (k \<notin> set (keys states) \<longrightarrow> getitem T k = getitem T u)
      \<and> (map_of states k' = Some v' \<longrightarrow> getitem T k' = Inr v'))
   \<and> (state_matrix2 states2 u2 = Inr T2 \<longrightarrow>
      (\<exists>v. getitem2 T2 u2 u2 = Inr v)
      \<and> (a1 \<notin> set (keys states2)
           \<and> (\<forall>row. map_of states2 u2 = Some row \<longrightarrow> a2 \<notin> set (keys row)) \<longrightarrow>
         getitem2 T2 a1 a2 = getitem2 T2 u2 u2)
      \<and> (map_of states2 p1 = Some row1 \<and> b2 \<notin> set (keys row1) \<longrightarrow>
         getitem2 T2 p1 b2 = getitem2 T2 p1 u2 \<and> (\<exists>v. getitem2 T2 p1 u2 = Inr v))
      \<and> (map_of states2 q1 = Some row2 \<and> map_of row2 q2 = Some v2 \<longrightarrow>
         getitem2 T2 q1 q2 = Inr v2))"
proof (intro conjI impI)
  assume f: "state_matrix states u = Inr T"
  show "\<exists>v. getitem T u = Inr v" by (rule state_matrix_flat(1) [OF f])
  show "getitem T k = getitem T u" if "k \<notin> set (keys states)"
    using that by (rule state_matrix_flat(2) [OF f])
  show "getitem T k' = Inr v'" if "map_of states k' = Some v'"
    using that by (rule state_matrix_flat(3) [OF f])
next
  assume n: "state_matrix2 states2 u2 = Inr T2"
  from state_matrix2_unk_row [OF n] obtain urow where urow: "map_of states2 u2 = Some urow"
    by blast
  have Tu: "getitem T2 u2 = Inr (StateMatrix urow u2)"
    by (rule state_matrix2_present [OF n urow])
  have uu: "u2 \<in> set (keys urow)" by (rule state_matrix2_rows [OF n urow])
  from in_keys_Some [OF uu] obtain vu where vu: "map_of urow u2 = Some vu" by blast
  show "\<exists>v. getitem2 T2 u2 u2 = Inr v" by (simp add: getitem2_def ebind_def Tu vu)
  {
    assume a: "a1 \<notin> set (keys states2)
      \<and> (\<forall>row. map_of states2 u2 = Some row \<longrightarrow> a2 \<notin> set (keys row))"
    then have "a2 \<notin> set (keys urow)" using urow by blast
    then have "map_of urow a2 = None" by (simp add: map_of_None_keys)
    moreover have "getitem T2 a1 = Inr (StateMatrix urow u2)"
      using state_matrix2_absent [OF n, of a1] a Tu by simp
    ultimately show "getitem2 T2 a1 a2 = getitem2 T2 u2 u2"
      by (simp add: getitem2_def ebind_def Tu vu)
  }
  {
    assume p: "map_of states2 p1 = Some row1 \<and> b2 \<notin> set (keys row1)"
    then have Tp: "getitem T2 p1 = Inr (StateMatrix row1 u2)"
      using state_matrix2_present [OF n] by blast
    have "u2 \<in> set (keys row1)" using state_matrix2_rows [OF n] p by blast
    from in_keys_Some [OF this] obtain vp where vp: "map_of row1 u2 = Some vp" by blast
    have "map_of row1 b2 = None" using p by (simp add: map_of_None_keys)
    then show "getitem2 T2 p1 b2 = getitem2 T2 p1 u2"
      by (simp add: getitem2_def ebind_def Tp vp)
    show "\<exists>v. getitem2 T2 p1 u2 = Inr v" by (simp add: getitem2_def ebind_def Tp vp)
  }
  {
    assume q: "map_of states2 q1 = Some row2 \<and> map_of row2 q2 = Some v2"
    then have "getitem T2 q1 = Inr (StateMatrix row2 u2)"
      using state_matrix2_present [OF n] by blast
    then show "getitem2 T2 q1 q2 = Inr v2" using q by (simp add: getitem2_def ebind_def)
  }
qed

theorem C8_lookup_witness:
  "state_matrix [(''haha'', 2::int), (''##UNK##'', 5)] ''##UNK##''
     = Inr (StateMatrix [(''haha'', 2), (''##UNK##'', 5)] ''##UNK##'')
   \<and> getitem (StateMatrix [(''haha'', 2::int), (''##UNK##'', 5)] ''##UNK##'') ''kjfkjhf'' = Inr 5
   \<and> getitem (StateMatrix [(''haha'', 2::int), (''##UNK##'', 5)] ''##UNK##'') ''haha'' = Inr 2
   \<and> state_matrix2 [(''haha'', [(''hehe'', 1::int), (''##UNK##'', 4)]),
                     (''##UNK##'', [(''##UNK##'', 6), (''lol'', 78)])] ''##UNK##''
     = Inr (StateMatrix [(''haha'', StateMatrix [(''hehe'', 1), (''##UNK##'', 4)] ''##UNK##''),
                         (''##UNK##'', StateMatrix [(''##UNK##'', 6), (''lol'', 78)] ''##UNK##'')]
              ''##UNK##'')
   \<and> getitem2 (StateMatrix [(''haha'', StateMatrix [(''hehe'', 1::int), (''##UNK##'', 4)] ''##UNK##''),
                         (''##UNK##'', StateMatrix [(''##UNK##'', 6), (''lol'', 78)] ''##UNK##'')]
              ''##UNK##'') ''kidhf'' ''kfji'' = Inr 6
   \<and> getitem2 (StateMatrix [(''haha'', StateMatrix [(''hehe'', 1::int), (''##UNK##'', 4)] ''##UNK##''),
                         (''##UNK##'', StateMatrix [(''##UNK##'', 6), (''lol'', 78)] ''##UNK##'')]
              ''##UNK##'') ''haha'' ''kjdff'' = Inr 4
   \<and> getitem2 (StateMatrix [(''haha'', StateMatrix [(''hehe'', 1::int), (''##UNK##'', 4)] ''##UNK##''),
                         (''##UNK##'', StateMatrix [(''##UNK##'', 6), (''lol'', 78)] ''##UNK##'')]
              ''##UNK##'') ''haha'' ''hehe'' = Inr 1"
  using C8_lookup_falls_back_to_unknown [of
      "[(''haha'', 2::int), (''##UNK##'', 5)]" "''##UNK##''"
      "StateMatrix [(''haha'', 2), (''##UNK##'', 5)] ''##UNK##''" "''kjfkjhf''" "''haha''" 2
      "[(''haha'', [(''hehe'', 1::int), (''##UNK##'', 4)]),
        (''##UNK##'', [(''##UNK##'', 6), (''lol'', 78)])]" "''##UNK##''"
      "StateMatrix [(''haha'', StateMatrix [(''hehe'', 1), (''##UNK##'', 4)] ''##UNK##''),
                    (''##UNK##'', StateMatrix [(''##UNK##'', 6), (''lol'', 78)] ''##UNK##'')]
         ''##UNK##''"
      "''kidhf''" "''kfji''" "''haha''" "[(''hehe'', 1), (''##UNK##'', 4)]" "''kjdff''"
      "''haha''" "[(''hehe'', 1), (''##UNK##'', 4)]" "''hehe''" 1]
  by (simp add: state_matrix_def state_matrix2_def keys_def dict_values_def getitem2_def)

section \<open>Properties of the categorical-value classifier\<close>

lemma param_stats_all:
  assumes "\<forall>(p, vals) \<in> set xs. \<exists>n. getitem pc p = Inr n \<and> n \<noteq> 0"
  shows "foldM (param_stats_step pc) xs acc = Inr (acc @ map (param_stat pc) xs)"
  using assms
proof (induction xs arbitrary: acc)
  case Nil
  then show ?case by simp
next
  case (Cons x xs)
  obtain p vals where x: "x = (p, vals)" by (cases x)
  from Cons.prems x obtain n where n: "getitem pc p = Inr n" "n \<noteq> 0" by auto
  have step: "param_stats_step pc x acc = Inr (acc @ [param_stat pc x])"
    using n by (simp add: param_stats_step_def param_stat_def x py_truediv_def)
  have "\<forall>(p, vals) \<in> set xs. \<exists>n. getitem pc p = Inr n \<and> n \<noteq> 0"
    using Cons.prems by simp
  from Cons.IH [OF this] show ?case by (simp add: step)
qed

text \<open>
  Claim C9 (the classifier returns exactly the parameters with \<open>d \<le> 20\<close>,
  \<open>n \<ge> 20\<close> and \<open>100 * d / n \<le> 10\<close>) fails where a parameter of
  \<^verbatim>\<open>param_value_counts\<close> has the count 0: the statistics are computed for every
  parameter before any is filtered, and the division raises.
\<close>

theorem C9_zero_count_raises:
  "get_params_to_model_values (Dict [(''p'', 0)]) (Dict [(''p'', Dict [(''v'', 1::int)])])
     = Inl ZeroDivisionError"
  by (simp add: get_params_to_model_values_def param_stats_step_def py_truediv_def)

text \<open>
  Claim C9 as amended: when every parameter of \<^verbatim>\<open>param_value_counts\<close> has a count
  in \<^verbatim>\<open>param_counts\<close> that is not zero, the classifier returns exactly the parameters
  \<open>p\<close> with \<open>d \<le> 20\<close>, \<open>n \<ge> 20\<close> and \<open>100 * d / n \<le> 10\<close>, where \<open>d\<close> is the
  number of values stored under \<open>p\<close> and \<open>n\<close> is \<^verbatim>\<open>param_counts[p]\<close>.
\<close>

theorem C9_modellable_params:
  assumes "\<forall>(p, vals) \<in> set (items pvc). \<exists>n. getitem pc p = Inr n \<and> n \<noteq> 0"
  shows "get_params_to_model_values pc pvc =
           Inr {p. \<exists>vals n. (p, vals) \<in> set (items pvc) \<and> getitem pc p = Inr n
                  \<and> length (items vals) \<le> 20 \<and> n \<ge> 20
                  \<and> 100 * real (length (items vals)) / real_of_int n \<le> 10}"
proof -
  have "get_params_to_model_values pc pvc =
          Inr (set (map fst (filter (\<lambda>(p, d, n, r). d \<le> 20 \<and> n \<ge> 20 \<and> r \<le> 10)
                 (map (param_stat pc) (items pvc)))))"
    by (simp add: get_params_to_model_values_def param_stats_all [OF assms])
  moreover have "set (map fst (filter (\<lambda>(p, d, n, r). d \<le> 20 \<and> n \<ge> 20 \<and> r \<le> 10)
                 (map (param_stat pc) (items pvc))))
      = {p. \<exists>vals n. (p, vals) \<in> set (items pvc) \<and> getitem pc p = Inr n
                  \<and> length (items vals) \<le> 20 \<and> n \<ge> 20
                  \<and> 100 * real (length (items vals)) / real_of_int n \<le> 10}" (is "?L = ?R")
  proof (rule set_eqI)
    fix q
    show "q \<in> ?L \<longleftrightarrow> q \<in> ?R"
    proof
      assume "q \<in> ?L"
      then obtain vals where mem: "(q, vals) \<in> set (items pvc)"
        and ok: "length (items vals) \<le> 20 \<and> projr (getitem pc q) \<ge> 20
           \<and> real (100 * length (items vals)) / real_of_int (projr (getitem pc q)) \<le> 10"
        by (auto simp: param_stat_def)
      from assms mem obtain n where "getitem pc q = Inr n" by auto
      with mem ok show "q \<in> ?R" by auto
    next
      assume "q \<in> ?R"
      then obtain vals n where mem: "(q, vals) \<in> set (items pvc)" and n: "getitem pc q = Inr n"
        and ok: "length (items vals) \<le> 20" "n \<ge> 20"
          "100 * real (length (items vals)) / real_of_int n \<le> 10"
        by auto
      have "fst (param_stat pc (q, vals)) = q" by (simp add: param_stat_def)
      moreover have "(\<lambda>(p, d, n, r). d \<le> 20 \<and> n \<ge> 20 \<and> r \<le> 10) (param_stat pc (q, vals))"
        using n ok by (simp add: param_stat_def)
      ultimately show "q \<in> ?L" using mem by (force simp: image_iff)
    qed
  qed
  ultimately show ?thesis by simp
qed

theorem C9_modellable_params_witness:
  "get_params_to_model_values (Dict [(''Force'', 40), (''Identity'', 40)])
     (Dict [(''Force'', Dict [(''true'', 20), (''false'', 20::int)]),
            (''Identity'', Dict [(''a'', 10), (''b'', 10), (''c'', 10), (''d'', 5), (''e'', 5)])])
   = Inr {''Force''}"
proof -
  let ?pc = "Dict [(''Force'', 40::int), (''Identity'', 40)]"
  let ?pvc = "Dict [(''Force'', Dict [(''true'', 20), (''false'', 20::int)]),
            (''Identity'', Dict [(''a'', 10), (''b'', 10), (''c'', 10), (''d'', 5), (''e'', 5)])]"
  have h: "\<forall>(p, vals) \<in> set (items ?pvc). \<exists>n. getitem ?pc p = Inr n \<and> n \<noteq> 0" by simp
  have "{p. \<exists>vals n. (p, vals) \<in> set (items ?pvc) \<and> getitem ?pc p = Inr n
                  \<and> length (items vals) \<le> 20 \<and> n \<ge> 20
                  \<and> 100 * real (length (items vals)) / real_of_int n \<le> 10} = {''Force''}"
    by auto
  with C9_modellable_params [OF h] show ?thesis by simp
qed

section \<open>Properties of the derived probabilities\<close>

subsection \<open>Rounding to the nearest double\<close>

lemma round_half_even_error: "\<bar>of_int (round_half_even y) - y\<bar> \<le> 1/2"
  unfolding round_half_even_def Let_def by (auto; linarith)

lemma round_half_even_nonneg: "0 \<le> y \<Longrightarrow> 0 \<le> round_half_even y"
  unfolding round_half_even_def Let_def by (auto; linarith)

lemma round_half_even_of_int [simp]: "round_half_even (of_int k) = k"
  by (simp add: round_half_even_def)

lemma round_binary64_error:
  "\<bar>round_binary64 x - x\<bar> \<le> 2 powr of_int (binary64_exponent x - 52) / 2"
proof (cases "x = 0")
  case True
  then show ?thesis by (simp add: round_binary64_def)
next
  case False
  let ?u = "2 powr of_int (binary64_exponent x - 52) :: real"
  have u: "0 < ?u" by simp
  have "\<bar>round_binary64 x - x\<bar> = \<bar>of_int (round_half_even (x / ?u)) - x / ?u\<bar> * ?u"
  proof -
    have "round_binary64 x - x = (of_int (round_half_even (x / ?u)) - x / ?u) * ?u"
      using False u by (simp add: round_binary64_def algebra_simps)
    then show ?thesis using u by (simp add: abs_mult)
  qed
  also have "\<dots> \<le> (1/2) * ?u"
    by (rule mult_right_mono [OF round_half_even_error]) simp
  finally show ?thesis by simp
qed

lemma round_binary64_one [simp]: "round_binary64 1 = 1"
proof -
  have e: "binary64_exponent 1 = 0" by (simp add: binary64_exponent_def)
  have "(1::real) / 2 powr (- 52) = of_int (2 ^ 52)"
    by (simp add: powr_minus powr_numeral divide_simps del: of_int_power)
  then have "round_half_even (1 / 2 powr (- 52)) = 2 ^ 52"
    by (simp only: round_half_even_of_int)
  then show ?thesis
    by (simp add: round_binary64_def e powr_minus powr_numeral)
qed

lemma round_binary64_error_unit:
  assumes "\<bar>x\<bar> \<le> 1"
  shows "\<bar>round_binary64 x - x\<bar> \<le> 1 / 2 ^ 54"
proof (cases "\<bar>x\<bar> = 1 \<or> x = 0")
  case True
  then show ?thesis
  proof (elim disjE)
    assume "\<bar>x\<bar> = 1"
    then consider "x = 1" | "x = - 1" by linarith
    then show ?thesis
    proof cases
      case 1
      then show ?thesis by simp
    next
      case 2
      have "round_binary64 (- 1) = - 1"
      proof -
        have e: "binary64_exponent (- 1) = 0" by (simp add: binary64_exponent_def)
        have "(- 1::real) / 2 powr (- 52) = of_int (- (2 ^ 52))"
          by (simp add: powr_minus powr_numeral divide_simps del: of_int_power)
        then have "round_half_even (- 1 / 2 powr (- 52)) = - (2 ^ 52)"
          by (simp only: round_half_even_of_int)
        then show ?thesis
          by (simp add: round_binary64_def e powr_minus powr_numeral)
      qed
      with 2 show ?thesis by simp
    qed
  next
    assume "x = 0"
    then show ?thesis by (simp add: round_binary64_def)
  qed
next
  case False
  then have x: "x \<noteq> 0" "\<bar>x\<bar> < 1" using assms by auto
  then have "log 2 \<bar>x\<bar> < 0" by simp
  then have "\<lfloor>log 2 \<bar>x\<bar>\<rfloor> \<le> - 1" by linarith
  then have "binary64_exponent x \<le> - 1" by (simp add: binary64_exponent_def)
  then have "(2::real) powr of_int (binary64_exponent x - 52) \<le> 2 powr (- 53)"
    by (intro powr_mono) simp_all
  also have "\<dots> = 1 / 2 ^ 53" by (simp add: powr_minus powr_numeral divide_simps)
  finally have "2 powr of_int (binary64_exponent x - 52) / 2 \<le> (1 / 2 ^ 53) / (2::real)"
    by simp
  with round_binary64_error [of x] show ?thesis by simp
qed

lemma round_binary64_error_two:
  assumes "\<bar>x\<bar> < 2"
  shows "\<bar>round_binary64 x - x\<bar> \<le> 1 / 2 ^ 53"
proof (cases "x = 0")
  case True
  then show ?thesis by (simp add: round_binary64_def)
next
  case False
  then have "log 2 \<bar>x\<bar> < 1" using assms by (simp add: log_less_iff)
  then have "\<lfloor>log 2 \<bar>x\<bar>\<rfloor> \<le> 0" by linarith
  then have "binary64_exponent x \<le> 0" by (simp add: binary64_exponent_def)
  then have "(2::real) powr of_int (binary64_exponent x - 52) \<le> 2 powr (- 52)"
    by (intro powr_mono) simp_all
  also have "\<dots> = 1 / 2 ^ 52" by (simp add: powr_minus powr_numeral divide_simps)
  finally have "2 powr of_int (binary64_exponent x - 52) / 2 \<le> (1 / 2 ^ 52) / (2::real)"
    by simp
  with round_binary64_error [of x] show ?thesis by simp
qed

lemma round_binary64_nonneg: "0 \<le> x \<Longrightarrow> 0 \<le> round_binary64 x"
  by (simp add: round_binary64_def round_half_even_nonneg)

lemma floor_log2_eq:
  assumes "0 < x" and "2 powr of_int e \<le> x" and "x < 2 powr of_int (e + 1)"
  shows "\<lfloor>log 2 x\<rfloor> = e"
proof -
  have "of_int e \<le> log 2 x" using assms(1,2) by (simp add: le_log_iff)
  moreover have "log 2 x < of_int (e + 1)" using assms(1,3) by (simp add: log_less_iff)
  ultimately show ?thesis by linarith
qed

lemma round_binary64_in_binade:
  assumes "0 < x" and "2 powr of_int e \<le> x" and "x < 2 powr of_int (e + 1)"
    and "- 1022 \<le> e"
  shows "round_binary64 x
           = of_int (round_half_even (x / 2 powr of_int (e - 52))) * 2 powr of_int (e - 52)"
proof -
  have "binary64_exponent x = e"
    using floor_log2_eq [OF assms(1-3)] assms(1,4) by (simp add: binary64_exponent_def)
  then show ?thesis using assms(1) by (simp add: round_binary64_def)
qed

lemma round_binary64_third: "round_binary64 (1/3) = 6004799503160661 / 2 ^ 54"
  using round_binary64_in_binade [of "1/3" "-2"]
  by (simp add: powr_minus powr_numeral round_half_even_def Let_def)

lemma round_binary64_quarter: "round_binary64 (1/4) = 1/4"
  using round_binary64_in_binade [of "1/4" "-2"]
  by (simp add: powr_minus powr_numeral round_half_even_def Let_def)

lemma round_binary64_three_quarters: "round_binary64 (3/4) = 3/4"
  using round_binary64_in_binade [of "3/4" "-1"]
  by (simp add: powr_minus powr_numeral round_half_even_def Let_def)

lemma round_binary64_error_rel:
  assumes "0 \<le> x"
  shows "\<bar>round_binary64 x - x\<bar> \<le> x / 2 ^ 53 + 1 / 2 ^ 1075"
proof (cases "x = 0")
  case True
  then show ?thesis by (simp add: round_binary64_def)
next
  case False
  then have pos: "0 < x" using assms by simp
  show ?thesis
  proof (cases "- 1022 \<le> \<lfloor>log 2 x\<rfloor>")
    case True
    then have e: "binary64_exponent x = \<lfloor>log 2 x\<rfloor>"
      using pos by (simp add: binary64_exponent_def)
    have "2 powr of_int \<lfloor>log 2 x\<rfloor> \<le> 2 powr log 2 x" by (intro powr_mono) simp_all
    then have le: "2 powr of_int \<lfloor>log 2 x\<rfloor> \<le> x" using pos by simp
    have "(2::real) powr of_int (binary64_exponent x - 52) / 2
            = 2 powr of_int \<lfloor>log 2 x\<rfloor> / 2 ^ 53"
      by (simp add: e powr_diff powr_numeral)
    also have "\<dots> \<le> x / 2 ^ 53" using le by (simp add: divide_right_mono)
    finally have "\<bar>round_binary64 x - x\<bar> \<le> x / 2 ^ 53"
      using round_binary64_error [of x] by linarith
    then show ?thesis by simp
  next
    case False
    then have e: "binary64_exponent x = - 1022"
      using pos by (simp add: binary64_exponent_def)
    have "(2::real) powr of_int (binary64_exponent x - 52) / 2 = 1 / 2 ^ 1075"
      by (simp add: e powr_minus powr_numeral divide_simps)
    then have "\<bar>round_binary64 x - x\<bar> \<le> 1 / 2 ^ 1075"
      using round_binary64_error [of x] by simp
    moreover have "0 \<le> x / 2 ^ 53" using assms by simp
    ultimately show ?thesis by linarith
  qed
qed

lemma member_le_sum_list_int:
  fixes xs :: "int list"
  assumes "\<forall>x\<in>set xs. 0 \<le> x" and "c \<in> set xs"
  shows "c \<le> sum_list xs"
  using assms
proof (induction xs)
  case Nil
  then show ?case by simp
next
  case (Cons x xs)
  have "0 \<le> sum_list xs" using Cons.prems(1) by (intro sum_list_nonneg) simp
  then show ?case using Cons by auto
qed

lemma int_truediv_fraction:
  assumes "0 \<le> c" and "c \<le> n" and "0 < n"
  shows "int_truediv c n = Inr (round_binary64 (real_of_int c / real_of_int n))"
proof -
  let ?x = "real_of_int c / real_of_int n"
  have x: "0 \<le> ?x" "?x \<le> 1" using assms by simp_all
  then have "\<bar>round_binary64 ?x - ?x\<bar> \<le> 1 / 2 ^ 54"
    by (intro round_binary64_error_unit) simp
  moreover have "0 \<le> round_binary64 ?x" using x(1) by (rule round_binary64_nonneg)
  ultimately have "\<bar>round_binary64 ?x\<bar> \<le> 1 + 1 / 2 ^ 54" using x by linarith
  moreover have "(1::real) + 1 / 2 ^ 54 < 2 ^ 1024" by simp
  ultimately have "\<not> 2 ^ 1024 \<le> \<bar>round_binary64 ?x\<bar>" by linarith
  then show ?thesis using assms(3) by (simp add: int_truediv_def Let_def)
qed

subsection \<open>The derivation loops\<close>

lemma update_new: "k \<notin> fst ` set xs \<Longrightarrow> AList.update k v xs = xs @ [(k, v)]"
  by (induction xs) auto

lemma update_last:
  "k \<notin> fst ` set xs \<Longrightarrow> AList.update k v (xs @ [(k, w)]) = xs @ [(k, v)]"
  by (induction xs) auto

lemma map_of_last: "k \<notin> fst ` set xs \<Longrightarrow> map_of (xs @ [(k, w)]) k = Some w"
  by (induction xs) auto

lemma set_item2_new:
  "a \<notin> fst ` set acc \<Longrightarrow> set_item2 a b p acc = acc @ [(a, [(b, p)])]"
  by (simp add: set_item2_def update_new map_of_eq_None_iff [THEN iffD2])

lemma set_item2_last:
  assumes "a \<notin> fst ` set acc" and "b \<notin> fst ` set r"
  shows "set_item2 a b p (acc @ [(a, r)]) = acc @ [(a, r @ [(b, p)])]"
proof -
  have "map_of (acc @ [(a, r)]) a = Some r" using assms(1) by (rule map_of_last)
  then show ?thesis using assms by (simp add: set_item2_def update_last update_new)
qed

lemma cond_inner_tail:
  assumes "0 < n" and "a \<notin> fst ` set acc" and "distinct (map fst todo)"
    and "fst ` set r \<inter> fst ` set todo = {}"
    and "\<forall>(b, c) \<in> set todo. 0 \<le> c \<and> c \<le> n"
  shows "foldM (cond_probs_step a n) todo (acc @ [(a, r)])
           = Inr (acc @ [(a, r @ map (\<lambda>(b, c).
                                  (b, round_binary64 (real_of_int c / real_of_int n))) todo)])"
  using assms(3,4,5)
proof (induction todo arbitrary: r)
  case Nil
  then show ?case by simp
next
  case (Cons x todo)
  obtain b c where x: "x = (b, c)" by (cases x)
  let ?p = "round_binary64 (real_of_int c / real_of_int n)"
  have b: "b \<notin> fst ` set r" using Cons.prems(2) x by auto
  have c: "0 \<le> c" "c \<le> n" using Cons.prems(3) x by auto
  have step: "cond_probs_step a n (b, c) (acc @ [(a, r)]) = Inr (acc @ [(a, r @ [(b, ?p)])])"
    by (simp add: cond_probs_step_def int_truediv_fraction [OF c assms(1)]
          set_item2_last [OF assms(2) b])
  have d: "distinct (map fst todo)" using Cons.prems(1) by simp
  have i: "fst ` set (r @ [(b, ?p)]) \<inter> fst ` set todo = {}"
    using Cons.prems x by auto
  have r: "\<forall>(b, c) \<in> set todo. 0 \<le> c \<and> c \<le> n" using Cons.prems(3) by simp
  show ?case using Cons.IH [OF d i r] by (simp add: step x)
qed

lemma cond_inner:
  assumes "0 < n" and "a \<notin> fst ` set acc" and "distinct (map fst bs)" and "bs \<noteq> []"
    and "\<forall>(b, c) \<in> set bs. 0 \<le> c \<and> c \<le> n"
  shows "foldM (cond_probs_step a n) bs acc
           = Inr (acc @ [(a, map (\<lambda>(b, c).
                                (b, round_binary64 (real_of_int c / real_of_int n))) bs)])"
proof (cases bs)
  case Nil
  then show ?thesis using assms(4) by simp
next
  case (Cons x rest)
  obtain b c where x: "x = (b, c)" by (cases x)
  let ?p = "round_binary64 (real_of_int c / real_of_int n)"
  have c: "0 \<le> c" "c \<le> n" using assms(5) Cons x by auto
  have step: "cond_probs_step a n (b, c) acc = Inr (acc @ [(a, [(b, ?p)])])"
    by (simp add: cond_probs_step_def int_truediv_fraction [OF c assms(1)]
          set_item2_new [OF assms(2)])
  have d: "distinct (map fst rest)" using assms(3) Cons by simp
  have i: "fst ` set [(b, ?p)] \<inter> fst ` set rest = {}"
    using assms(3) Cons x by auto
  have r: "\<forall>(b, c) \<in> set rest. 0 \<le> c \<and> c \<le> n" using assms(5) Cons by simp
  show ?thesis using cond_inner_tail [OF assms(1,2) d i r] by (simp add: Cons step x)
qed

lemma count_le_row_sum:
  fixes bs :: "int dict"
  assumes "list_all (\<lambda>c. 0 \<le> c) (dict_values bs)" and "(b, c) \<in> set bs"
  shows "0 \<le> c \<and> c \<le> sum_list (dict_values bs)"
proof -
  have m: "c \<in> set (dict_values bs)" using assms(2) by (force simp: dict_values_def)
  have n: "\<forall>x\<in>set (dict_values bs). 0 \<le> x" using assms(1) by (simp add: list_all_iff)
  show ?thesis using n m member_le_sum_list_int [OF n m] by simp
qed

lemma cond_outer:
  assumes "distinct (map fst js)" and "fst ` set acc \<inter> fst ` set js = {}"
    and "\<forall>(a, bs) \<in> set js. distinct (keys (items bs))
           \<and> list_all (\<lambda>c. 0 \<le> c) (dict_values (items bs))
           \<and> 0 < sum_list (dict_values (items bs))"
  shows "foldM (\<lambda>(a, bs) cond_probs.
            foldM (cond_probs_step a (sum_list (dict_values (items bs)))) (items bs) cond_probs)
           js acc
         = Inr (acc @ map (\<lambda>(a, bs). (a, rounded_row (items bs))) js)"
  using assms
proof (induction js arbitrary: acc)
  case Nil
  then show ?case by simp
next
  case (Cons j js)
  obtain a bs where j: "j = (a, bs)" by (cases j)
  have pos: "0 < sum_list (dict_values (items bs))" and dist: "distinct (map fst (items bs))"
    and nn: "list_all (\<lambda>c. 0 \<le> c) (dict_values (items bs))"
    using Cons.prems(3) j by (auto simp: keys_def)
  then have ne: "items bs \<noteq> []" by (auto simp: dict_values_def)
  have a: "a \<notin> fst ` set acc" using Cons.prems(2) j by auto
  have le: "\<forall>(b, c) \<in> set (items bs). 0 \<le> c \<and> c \<le> sum_list (dict_values (items bs))"
    using count_le_row_sum [OF nn] by auto
  have inner: "foldM (cond_probs_step a (sum_list (dict_values (items bs)))) (items bs) acc
           = Inr (acc @ [(a, rounded_row (items bs))])"
    using cond_inner [OF pos a dist ne le] by (simp add: rounded_row_def)
  have d: "distinct (map fst js)" using Cons.prems(1) by simp
  have i: "fst ` set (acc @ [(a, rounded_row (items bs))]) \<inter> fst ` set js = {}"
    using Cons.prems(1,2) j by auto
  have r: "\<forall>(a, bs) \<in> set js. distinct (keys (items bs))
           \<and> list_all (\<lambda>c. 0 \<le> c) (dict_values (items bs))
           \<and> 0 < sum_list (dict_values (items bs))"
    using Cons.prems(3) by simp
  show ?case using Cons.IH [OF d i r] by (simp add: j inner)
qed

lemma cond_probs_loop_eq:
  assumes "wf_table2 t" and "nonneg_counts t" and "positive_rows t"
  shows "cond_probs_loop t = Inr (rounded_rows t)"
proof -
  have "\<forall>(a, bs) \<in> set (items t). distinct (keys (items bs))
           \<and> list_all (\<lambda>c. 0 \<le> c) (dict_values (items bs))
           \<and> 0 < sum_list (dict_values (items bs))"
    using assms
    by (force simp: wf_table2_def nonneg_counts_def positive_rows_def list_all_iff
          dict_values_def)
  moreover have "distinct (map fst (items t))"
    using assms(1) by (simp add: wf_table2_def keys_def)
  ultimately show ?thesis
    using cond_outer [of "items t" "[]"] by (simp add: cond_probs_loop_def rounded_rows_def)
qed

lemma getitem_present:
  assumes "distinct (keys (items t))" and "(k, v) \<in> set (items t)"
  shows "getitem t k = Inr v"
proof -
  have "map_of (items t) k = Some v" using assms by (simp add: keys_def)
  then show ?thesis by (cases t) simp_all
qed

lemma trans_inner_eq:
  assumes "getitem t prev = Inr row" and "distinct (keys (items row))"
    and "set todo \<subseteq> set (items row)"
  shows "foldM (trans_probs_step t prev) (keys todo) acc
           = foldM (cond_probs_step prev (sum_list (dict_values (items row)))) todo acc"
  using assms(3)
proof (induction todo arbitrary: acc)
  case Nil
  then show ?case by (simp add: keys_def)
next
  case (Cons x todo)
  obtain b c where x: "x = (b, c)" by (cases x)
  have "getitem row b = Inr c" using Cons.prems x assms(2) by (auto intro: getitem_present)
  then have step: "trans_probs_step t prev b acc
      = cond_probs_step prev (sum_list (dict_values (items row))) (b, c) acc"
    using assms(1) by (simp add: trans_probs_step_def cond_probs_step_def getitem2_def)
  have "set todo \<subseteq> set (items row)" using Cons.prems by simp
  from Cons.IH [OF this]
  have ih: "\<And>acc. foldM (trans_probs_step t prev) (map fst todo) acc
      = foldM (cond_probs_step prev (sum_list (dict_values (items row)))) todo acc"
    by (simp add: keys_def)
  show ?case by (simp add: keys_def x step ih split: sum.splits)
qed

lemma foldM_cong:
  "(\<And>x s. x \<in> set xs \<Longrightarrow> f x s = g x s) \<Longrightarrow> foldM f xs s = foldM g xs s"
  by (induction xs arbitrary: s) (auto split: sum.splits)

lemma trans_probs_loop_eq:
  assumes "wf_table2 t"
  shows "trans_probs_loop t = cond_probs_loop t"
  unfolding trans_probs_loop_def cond_probs_loop_def
proof (rule foldM_cong)
  fix x acc assume x: "x \<in> set (items t)"
  obtain prev row where pr: "x = (prev, row)" by (cases x)
  have g: "getitem t prev = Inr row"
    using assms x pr by (auto simp: wf_table2_def intro: getitem_present)
  have d: "distinct (keys (items row))"
    using assms x pr by (force simp: wf_table2_def list_all_iff dict_values_def)
  show "(case x of (prev, currents) \<Rightarrow> \<lambda>trans_probs.
           foldM (trans_probs_step t prev) (keys (items currents)) trans_probs) acc
      = (case x of (a, bs) \<Rightarrow> \<lambda>cond_probs.
           foldM (cond_probs_step a (sum_list (dict_values (items bs)))) (items bs) cond_probs) acc"
    using trans_inner_eq [OF g d, of "items row" acc] by (simp add: pr)
qed

text \<open>The loops over a flat table, and the constructor on the derived tables.\<close>

lemma uni_tail:
  assumes "0 < n" and "distinct (map fst todo)" and "fst ` set acc \<inter> fst ` set todo = {}"
    and "\<forall>(k, c) \<in> set todo. 0 \<le> c \<and> c \<le> n"
  shows "foldM (\<lambda>(k, c) probs. ebind (int_truediv c n) (\<lambda>p. Inr (AList.update k p probs)))
           todo acc
         = Inr (acc @ map (\<lambda>(k, c). (k, round_binary64 (real_of_int c / real_of_int n))) todo)"
  using assms(2,3,4)
proof (induction todo arbitrary: acc)
  case Nil
  then show ?case by simp
next
  case (Cons x todo)
  obtain k c where x: "x = (k, c)" by (cases x)
  let ?p = "round_binary64 (real_of_int c / real_of_int n)"
  have k: "k \<notin> fst ` set acc" using Cons.prems(2) x by auto
  have c: "0 \<le> c" "c \<le> n" using Cons.prems(3) x by auto
  have d: "distinct (map fst todo)" using Cons.prems(1) by simp
  have i: "fst ` set (acc @ [(k, ?p)]) \<inter> fst ` set todo = {}"
    using Cons.prems(1,2) x by auto
  have r: "\<forall>(k, c) \<in> set todo. 0 \<le> c \<and> c \<le> n" using Cons.prems(3) by simp
  show ?case
    using Cons.IH [OF d i r]
    by (simp add: x int_truediv_fraction [OF c assms(1)] update_new [OF k])
qed

lemma uni_probs_loop_eq:
  assumes "counted s"
  shows "uni_probs_loop s = Inr (rounded_row (items s))"
proof -
  let ?n = "sum_list (dict_values (items s))"
  have n: "0 < ?n" and d: "distinct (map fst (items s))"
    and nn: "list_all (\<lambda>c. 0 \<le> c) (dict_values (items s))"
    using assms by (simp_all add: counted_def keys_def)
  have le: "\<forall>(k, c) \<in> set (items s). 0 \<le> c \<and> c \<le> ?n"
    using count_le_row_sum [OF nn] by auto
  show ?thesis
    using uni_tail [OF n d _ le, of "[]"] by (simp add: uni_probs_loop_def rounded_row_def)
qed

lemma prior_inner_eq:
  assumes "distinct (keys (items s))" and "set todo \<subseteq> set (items s)"
  shows "foldM (prior_probs_step s n) (keys todo) acc
           = foldM (\<lambda>(k, c) probs.
                      ebind (int_truediv c n) (\<lambda>p. Inr (AList.update k p probs))) todo acc"
  using assms(2)
proof (induction todo arbitrary: acc)
  case Nil
  then show ?case by (simp add: keys_def)
next
  case (Cons x todo)
  obtain k c where x: "x = (k, c)" by (cases x)
  have "getitem s k = Inr c" using Cons.prems x assms(1) by (auto intro: getitem_present)
  then have step: "prior_probs_step s n k acc
      = ebind (int_truediv c n) (\<lambda>p. Inr (AList.update k p acc))"
    by (simp add: prior_probs_step_def)
  have "set todo \<subseteq> set (items s)" using Cons.prems by simp
  from Cons.IH [OF this]
  have ih: "\<And>acc. foldM (prior_probs_step s n) (map fst todo) acc
      = foldM (\<lambda>(k, c) probs.
                 ebind (int_truediv c n) (\<lambda>p. Inr (AList.update k p probs))) todo acc"
    by (simp add: keys_def)
  show ?case by (simp add: keys_def x step ih split: sum.splits)
qed

lemma prior_probs_loop_eq:
  assumes "counted s"
  shows "foldM (prior_probs_step s (sum_list (dict_values (items s)))) (keys (items s)) []
           = Inr (rounded_row (items s))"
proof -
  have d: "distinct (keys (items s))" using assms by (simp add: counted_def)
  show ?thesis
    using prior_inner_eq [OF d, of "items s" "sum_list (dict_values (items s))" "[]"]
      uni_probs_loop_eq [OF assms]
    by (simp add: uni_probs_loop_def)
qed

lemma keys_rounded_row [simp]: "keys (rounded_row bs) = keys bs"
  by (simp add: keys_def rounded_row_def comp_def case_prod_unfold)

lemma keys_rounded_rows [simp]: "keys (rounded_rows t) = keys (items t)"
  by (simp add: keys_def rounded_rows_def comp_def case_prod_unfold)

lemma state_matrix_rounded:
  assumes "unk \<in> set (keys (items s))"
  shows "state_matrix (rounded_row (items s)) unk = Inr (StateMatrix (rounded_row (items s)) unk)"
proof -
  have "rounded_row (items s) \<noteq> []" using assms by (auto simp: rounded_row_def keys_def)
  then show ?thesis using assms by (simp add: state_matrix_def)
qed

lemma state_matrix2_rounded:
  assumes "holds_unknown t unk"
  shows "state_matrix2 (rounded_rows t) unk = Inr (wrap_rows (rounded_rows t) unk)"
proof -
  have k: "unk \<in> set (keys (items t))" using assms by (simp add: holds_unknown_def)
  then have ne: "rounded_rows t \<noteq> []" by (auto simp: rounded_rows_def keys_def)
  have "list_all (\<lambda>row. unk \<in> set (keys row)) (dict_values (rounded_rows t))"
    using assms
    by (auto simp: holds_unknown_def list_all_iff dict_values_def rounded_rows_def)
  then show ?thesis using k ne by (simp add: state_matrix2_def wrap_rows_def)
qed

lemma state_matrix2_wrap:
  "state_matrix2 dd unk = Inr tab \<Longrightarrow> tab = wrap_rows dd unk"
  by (auto simp: state_matrix2_def wrap_rows_def split: if_splits)

subsection \<open>The sum of a row\<close>

lemma sum_list_error:
  fixes f g h :: "'a \<Rightarrow> real"
  assumes "\<And>x. x \<in> set xs \<Longrightarrow> \<bar>f x - g x\<bar> \<le> h x"
  shows "\<bar>(\<Sum>x\<leftarrow>xs. f x) - (\<Sum>x\<leftarrow>xs. g x)\<bar> \<le> (\<Sum>x\<leftarrow>xs. h x)"
  using assms
proof (induction xs)
  case Nil
  then show ?case by simp
next
  case (Cons x xs)
  have "\<bar>f x - g x\<bar> \<le> h x" using Cons.prems by simp
  moreover have "\<bar>(\<Sum>x\<leftarrow>xs. f x) - (\<Sum>x\<leftarrow>xs. g x)\<bar> \<le> (\<Sum>x\<leftarrow>xs. h x)"
    using Cons by simp
  ultimately show ?case by simp
qed

lemma sum_list_quotients:
  "(\<Sum>c\<leftarrow>cs. real_of_int c / n) = real_of_int (sum_list cs) / n"
  by (induction cs) (simp_all add: add_divide_distrib)

lemma sum_list_bounds:
  "(\<Sum>c\<leftarrow>cs. real_of_int c / n / 2 ^ 53 + k)
     = real_of_int (sum_list cs) / n / 2 ^ 53 + real (length cs) * k"
  by (induction cs) (simp_all add: add_divide_distrib algebra_simps)

lemma dict_values_rounded_row:
  "dict_values (rounded_row bs)
     = map (\<lambda>c. round_binary64 (real_of_int c / real_of_int (sum_list (dict_values bs))))
         (dict_values bs)"
  by (simp add: rounded_row_def dict_values_def comp_def case_prod_unfold)

lemma length_rounded_row [simp]: "length (rounded_row bs) = length bs"
  by (simp add: rounded_row_def)

lemma rounded_row_nonneg:
  assumes "list_all (\<lambda>c. 0 \<le> c) (dict_values bs)" and "0 < sum_list (dict_values bs)"
  shows "\<forall>p\<in>set (dict_values (rounded_row bs)). 0 \<le> p"
  using assms
  by (auto simp: dict_values_rounded_row list_all_iff intro!: round_binary64_nonneg)

lemma rounded_row_sum:
  assumes "list_all (\<lambda>c. 0 \<le> c) (dict_values bs)" and "0 < sum_list (dict_values bs)"
  shows "\<bar>sum_list (dict_values (rounded_row bs)) - 1\<bar>
           \<le> 1 / 2 ^ 53 + real (length bs) / 2 ^ 1075"
proof -
  let ?cs = "dict_values bs"
  let ?n = "real_of_int (sum_list ?cs)"
  have n: "0 < ?n" using assms(2) by simp
  have one: "(\<Sum>c\<leftarrow>?cs. real_of_int c / ?n) = 1"
    using n by (simp add: sum_list_quotients)
  have "\<bar>(\<Sum>c\<leftarrow>?cs. round_binary64 (real_of_int c / ?n)) - (\<Sum>c\<leftarrow>?cs. real_of_int c / ?n)\<bar>
          \<le> (\<Sum>c\<leftarrow>?cs. real_of_int c / ?n / 2 ^ 53 + 1 / 2 ^ 1075)"
  proof (rule sum_list_error)
    fix c assume "c \<in> set ?cs"
    then have "0 \<le> c" using assms(1) by (simp add: list_all_iff)
    then have "0 \<le> real_of_int c / ?n" using n by simp
    then show "\<bar>round_binary64 (real_of_int c / ?n) - real_of_int c / ?n\<bar>
                 \<le> real_of_int c / ?n / 2 ^ 53 + 1 / 2 ^ 1075"
      by (rule round_binary64_error_rel)
  qed
  also have "\<dots> = ?n / ?n / 2 ^ 53 + real (length ?cs) * (1 / 2 ^ 1075)"
    by (rule sum_list_bounds)
  also have "\<dots> = 1 / 2 ^ 53 + real (length bs) / 2 ^ 1075"
    using n by (simp add: dict_values_def)
  finally show ?thesis by (simp only: one dict_values_rounded_row)
qed

lemma sum_doubles_error:
  assumes "\<forall>p\<in>set ps. 0 \<le> p" and "0 \<le> s"
    and "s + sum_list ps + real (length ps) / 2 ^ 53 < 2"
  shows "\<bar>fold (\<lambda>p s. round_binary64 (s + p)) ps s - (s + sum_list ps)\<bar>
           \<le> real (length ps) / 2 ^ 53"
  using assms
proof (induction ps arbitrary: s)
  case Nil
  then show ?case by simp
next
  case (Cons p ps)
  let ?s = "round_binary64 (s + p)"
  have p: "0 \<le> p" and rest: "\<forall>p\<in>set ps. 0 \<le> p" using Cons.prems(1) by simp_all
  have sum: "0 \<le> sum_list ps" using rest by (intro sum_list_nonneg) simp
  have len: "0 \<le> real (length ps) / 2 ^ 53" by simp
  have lt: "s + p + sum_list ps + (real (length ps) + 1) / 2 ^ 53 < 2"
    using Cons.prems(3) by (simp add: algebra_simps)
  have lt': "s + p + sum_list ps + real (length ps) / 2 ^ 53 + 1 / 2 ^ 53 < 2"
    using lt by (simp add: add_divide_distrib)
  have "\<bar>s + p\<bar> < 2" using lt' p sum len Cons.prems(2) by simp
  then have e: "\<bar>?s - (s + p)\<bar> \<le> 1 / 2 ^ 53" by (rule round_binary64_error_two)
  have nn: "0 \<le> ?s" using p Cons.prems(2) by (intro round_binary64_nonneg) simp
  have "?s + sum_list ps + real (length ps) / 2 ^ 53 < 2" using e lt' by linarith
  from Cons.IH [OF rest nn this]
  have "\<bar>fold (\<lambda>p s. round_binary64 (s + p)) ps ?s - (?s + sum_list ps)\<bar>
          \<le> real (length ps) / 2 ^ 53" .
  then have "\<bar>fold (\<lambda>p s. round_binary64 (s + p)) ps ?s - (s + p + sum_list ps)\<bar>
          \<le> real (length ps) / 2 ^ 53 + 1 / 2 ^ 53"
    using e by linarith
  then show ?case by (simp add: add_divide_distrib algebra_simps)
qed

lemma tiny_le: "m \<le> 2 ^ 52 \<Longrightarrow> real m / 2 ^ 1075 \<le> 1 / 2 ^ 1023"
proof -
  assume "m \<le> 2 ^ 52"
  then have "real m \<le> 2 ^ 52" by (metis of_nat_le_iff of_nat_numeral of_nat_power)
  then have "real m / 2 ^ 1075 \<le> 2 ^ 52 / 2 ^ 1075" by (rule divide_right_mono) simp
  then show ?thesis by simp
qed

lemma rounded_row_sums_to_one:
  assumes "list_all (\<lambda>c. 0 \<le> c) (dict_values bs)" and "0 < sum_list (dict_values bs)"
  shows "sums_to_one (dict_values (rounded_row bs))"
proof -
  let ?ps = "dict_values (rounded_row bs)"
  let ?m = "real (length ?ps)"
  have exact: "\<bar>sum_list ?ps - 1\<bar> \<le> 1 / 2 ^ 53 + ?m / 2 ^ 1075"
    using rounded_row_sum [OF assms] by (simp add: dict_values_rounded_row dict_values_def)
  have nn: "\<forall>p\<in>set ?ps. 0 \<le> p" by (rule rounded_row_nonneg [OF assms])
  have doubles: "\<bar>sum_doubles ?ps - 1\<bar> \<le> (?m + 1) / 2 ^ 53 + ?m / 2 ^ 1075"
    if m: "length ?ps \<le> 2 ^ 52"
  proof -
    have "?m \<le> 2 ^ 52" using m by (metis of_nat_le_iff of_nat_numeral of_nat_power)
    then have "?m / 2 ^ 53 \<le> 2 ^ 52 / 2 ^ 53" by (rule divide_right_mono) simp
    then have half: "?m / 2 ^ 53 \<le> 1 / 2" by simp
    have tiny: "?m / 2 ^ 1075 \<le> 1 / 2 ^ 1023" by (rule tiny_le [OF m])
    have "(1::real) / 2 ^ 1023 \<le> 1 / 2 ^ 53" by simp
    then have "0 + sum_list ?ps + ?m / 2 ^ 53 < 2" using exact half tiny by simp
    from sum_doubles_error [OF nn _ this]
    have "\<bar>sum_doubles ?ps - sum_list ?ps\<bar> \<le> ?m / 2 ^ 53" by (simp add: sum_doubles_def)
    then have "\<bar>sum_doubles ?ps - 1\<bar> \<le> ?m / 2 ^ 53 + 1 / 2 ^ 53 + ?m / 2 ^ 1075"
      using exact by linarith
    then show ?thesis by (simp add: add_divide_distrib)
  qed
  have nano: "\<bar>sum_doubles ?ps - 1\<bar> \<le> 1 / 10 ^ 9" if m: "length ?ps \<le> 2 ^ 23"
  proof -
    have m': "length ?ps \<le> 2 ^ 52" using m by simp
    have r: "?m \<le> 2 ^ 23" using m by (metis of_nat_le_iff of_nat_numeral of_nat_power)
    then have "(?m + 1) / 2 ^ 53 \<le> (2 ^ 23 + 1) / 2 ^ 53" by (intro divide_right_mono) simp_all
    moreover have "?m / 2 ^ 1075 \<le> 1 / 2 ^ 1023" by (rule tiny_le [OF m'])
    moreover have "((2::real) ^ 23 + 1) / 2 ^ 53 + 1 / 2 ^ 1023 \<le> 1 / 10 ^ 9" by simp
    ultimately show ?thesis using doubles [OF m'] by linarith
  qed
  show ?thesis using exact doubles nano by (simp add: sums_to_one_def)
qed

lemma row_stochastic_wrapped:
  assumes "nonneg_counts t" and "positive_rows t"
  shows "row_stochastic (wrap_rows (rounded_rows t) unk)"
proof -
  have "sums_to_one (dict_values (rounded_row (items row)))"
    if "(k, row) \<in> set (items t)" for k row
  proof -
    have "row \<in> set (dict_values (items t))" using that by (force simp: dict_values_def)
    then have "list_all (\<lambda>c. 0 \<le> c) (dict_values (items row))"
      and "0 < sum_list (dict_values (items row))"
      using assms by (simp_all add: nonneg_counts_def positive_rows_def list_all_iff)
    then show ?thesis by (rule rounded_row_sums_to_one)
  qed
  then show ?thesis
    by (auto simp: row_stochastic_def wrap_rows_def list_all_iff dict_values_def
          rounded_rows_def)
qed

subsection \<open>The conditional tables\<close>

lemma round_binary64_half: "round_binary64 (1/2) = 1/2"
  using round_binary64_in_binade [of "1/2" "-1"]
  by (simp add: powr_minus powr_numeral round_half_even_def Let_def)

text \<open>
  Claim C7 (row-stochastic conditional tables). For a well-formed table of counts (no
  negative count) whose rows have positive sums, the loop that derives the transition
  probabilities and the loop that derives the parameter and value probabilities both
  return, without a division by zero and without an overflow, the table in which every
  count is divided by the sum of its row, the quotient rounded to the nearest double.
  The conditional table that \<^verbatim>\<open>compute_cmds_probs\<close>,
  \<^verbatim>\<open>compute_params_probs\<close> or \<^verbatim>\<open>compute_values_probs\<close> returns is that
  table, wrapped with its unknown token, and each of its rows sums to 1 within a
  floating-point tolerance: the stored doubles, added as real numbers, are within
  \<open>2\<close> to the \<open>-53\<close> of 1 (plus \<open>2\<close> to the \<open>-1075\<close> for every
  entry), and added in doubles from left to right they are within \<open>1e-9\<close> of 1
  for a row of up to \<open>2\<close> to the \<open>23\<close> entries. Each of the three functions
  does return these tables when the unknown token is a key of the conditional table and
  of each of its rows, and a key of the flat table, which is well formed with a positive
  sum.
\<close>

theorem C7_conditional_tables_row_stochastic:
  assumes "wf_table2 t" and "nonneg_counts t" and "positive_rows t"
  shows "trans_probs_loop t = Inr (rounded_rows t)
       \<and> cond_probs_loop t = Inr (rounded_rows t)
       \<and> row_stochastic (wrap_rows (rounded_rows t) unk)
       \<and> (compute_cmds_probs seq1_counts t unk = Inr (prior_probs, trans_probs) \<longrightarrow>
            trans_probs = wrap_rows (rounded_rows t) unk \<and> row_stochastic trans_probs)
       \<and> (compute_params_probs param_counts t unk = Inr (param_probs, param_cond_cmd_probs) \<longrightarrow>
            param_cond_cmd_probs = wrap_rows (rounded_rows t) unk
            \<and> row_stochastic param_cond_cmd_probs)
       \<and> (compute_values_probs value_counts t unk = Inr (value_probs, value_cond_param_probs) \<longrightarrow>
            value_cond_param_probs = wrap_rows (rounded_rows t) unk
            \<and> row_stochastic value_cond_param_probs)
       \<and> (holds_unknown t unk \<and> counted seq1_counts \<and> unk \<in> set (keys (items seq1_counts)) \<longrightarrow>
            compute_cmds_probs seq1_counts t unk
              = Inr (StateMatrix (rounded_row (items seq1_counts)) unk,
                     wrap_rows (rounded_rows t) unk))
       \<and> (holds_unknown t unk \<and> counted param_counts \<and> unk \<in> set (keys (items param_counts)) \<longrightarrow>
            compute_params_probs param_counts t unk
              = Inr (StateMatrix (rounded_row (items param_counts)) unk,
                     wrap_rows (rounded_rows t) unk))
       \<and> (holds_unknown t unk \<and> counted value_counts \<and> unk \<in> set (keys (items value_counts)) \<longrightarrow>
            compute_values_probs value_counts t unk
              = Inr (StateMatrix (rounded_row (items value_counts)) unk,
                     wrap_rows (rounded_rows t) unk))"
proof -
  have c: "cond_probs_loop t = Inr (rounded_rows t)"
    by (rule cond_probs_loop_eq [OF assms])
  have tl: "trans_probs_loop t = Inr (rounded_rows t)"
    using trans_probs_loop_eq [OF assms(1)] c by simp
  have rs: "row_stochastic (wrap_rows (rounded_rows t) unk)"
    by (rule row_stochastic_wrapped [OF assms(2,3)])
  have 1: "trans_probs = wrap_rows (rounded_rows t) unk \<and> row_stochastic trans_probs"
    if "compute_cmds_probs seq1_counts t unk = Inr (prior_probs, trans_probs)"
  proof -
    have "state_matrix2 (rounded_rows t) unk = Inr trans_probs"
      using that by (auto simp: compute_cmds_probs_def Let_def tl ebind_Inr_iff)
    from state_matrix2_wrap [OF this] show ?thesis using rs by simp
  qed
  have 2: "param_cond_cmd_probs = wrap_rows (rounded_rows t) unk
           \<and> row_stochastic param_cond_cmd_probs"
    if "compute_params_probs param_counts t unk = Inr (param_probs, param_cond_cmd_probs)"
  proof -
    have "state_matrix2 (rounded_rows t) unk = Inr param_cond_cmd_probs"
      using that by (auto simp: compute_params_probs_def c ebind_Inr_iff)
    from state_matrix2_wrap [OF this] show ?thesis using rs by simp
  qed
  have 3: "value_cond_param_probs = wrap_rows (rounded_rows t) unk
           \<and> row_stochastic value_cond_param_probs"
    if "compute_values_probs value_counts t unk = Inr (value_probs, value_cond_param_probs)"
  proof -
    have "state_matrix2 (rounded_rows t) unk = Inr value_cond_param_probs"
      using that by (auto simp: compute_values_probs_def c ebind_Inr_iff)
    from state_matrix2_wrap [OF this] show ?thesis using rs by simp
  qed
  have 4: "compute_cmds_probs seq1_counts t unk
             = Inr (StateMatrix (rounded_row (items seq1_counts)) unk,
                    wrap_rows (rounded_rows t) unk)"
    if "holds_unknown t unk" and "counted seq1_counts"
      and "unk \<in> set (keys (items seq1_counts))"
    using that
    by (simp add: compute_cmds_probs_def Let_def tl prior_probs_loop_eq state_matrix_rounded
          state_matrix2_rounded)
  have 5: "compute_params_probs param_counts t unk
             = Inr (StateMatrix (rounded_row (items param_counts)) unk,
                    wrap_rows (rounded_rows t) unk)"
    if "holds_unknown t unk" and "counted param_counts"
      and "unk \<in> set (keys (items param_counts))"
    using that
    by (simp add: compute_params_probs_def c uni_probs_loop_eq state_matrix_rounded
          state_matrix2_rounded)
  have 6: "compute_values_probs value_counts t unk
             = Inr (StateMatrix (rounded_row (items value_counts)) unk,
                    wrap_rows (rounded_rows t) unk)"
    if "holds_unknown t unk" and "counted value_counts"
      and "unk \<in> set (keys (items value_counts))"
    using that
    by (simp add: compute_values_probs_def c uni_probs_loop_eq state_matrix_rounded
          state_matrix2_rounded)
  from c tl rs 1 2 3 4 5 6 show ?thesis by blast
qed

lemmas probs_eval =
  compute_cmds_probs_def compute_params_probs_def compute_values_probs_def
  trans_probs_loop_def cond_probs_loop_def uni_probs_loop_def prior_probs_step_def
  trans_probs_step_def cond_probs_step_def set_item2_def state_matrix_def state_matrix2_def
  keys_def dict_values_def getitem2_def int_truediv_def
  round_binary64_third round_binary64_quarter round_binary64_three_quarters
  round_binary64_half

theorem C7_row_stochastic_witness:
  "wf_table2 (Dict [(''A'', Dict [(''A'', 1::int), (''B'', 1), (''##UNK##'', 1)]),
                    (''B'', Dict [(''B'', 1), (''##UNK##'', 3)]),
                    (''##UNK##'', Dict [(''##UNK##'', 2)])])
   \<and> nonneg_counts (Dict [(''A'', Dict [(''A'', 1), (''B'', 1), (''##UNK##'', 1)]),
                         (''B'', Dict [(''B'', 1), (''##UNK##'', 3)]),
                         (''##UNK##'', Dict [(''##UNK##'', 2)])])
   \<and> positive_rows (Dict [(''A'', Dict [(''A'', 1), (''B'', 1), (''##UNK##'', 1)]),
                         (''B'', Dict [(''B'', 1), (''##UNK##'', 3)]),
                         (''##UNK##'', Dict [(''##UNK##'', 2)])])
   \<and> holds_unknown (Dict [(''A'', Dict [(''A'', 1::int), (''B'', 1), (''##UNK##'', 1)]),
                         (''B'', Dict [(''B'', 1), (''##UNK##'', 3)]),
                         (''##UNK##'', Dict [(''##UNK##'', 2)])]) ''##UNK##''
   \<and> counted (Dict [(''A'', 1), (''B'', 1), (''##UNK##'', 2)])
   \<and> compute_cmds_probs (Dict [(''A'', 1), (''B'', 1), (''##UNK##'', 2)])
       (Dict [(''A'', Dict [(''A'', 1), (''B'', 1), (''##UNK##'', 1)]),
              (''B'', Dict [(''B'', 1), (''##UNK##'', 3)]),
              (''##UNK##'', Dict [(''##UNK##'', 2)])]) ''##UNK##''
     = Inr (StateMatrix [(''A'', 1/4), (''B'', 1/4), (''##UNK##'', 1/2)] ''##UNK##'',
            StateMatrix
              [(''A'', StateMatrix [(''A'', 6004799503160661 / 2 ^ 54),
                                    (''B'', 6004799503160661 / 2 ^ 54),
                                    (''##UNK##'', 6004799503160661 / 2 ^ 54)] ''##UNK##''),
               (''B'', StateMatrix [(''B'', 1/4), (''##UNK##'', 3/4)] ''##UNK##''),
               (''##UNK##'', StateMatrix [(''##UNK##'', 1)] ''##UNK##'')] ''##UNK##'')
   \<and> compute_params_probs (Dict [(''A'', 1), (''B'', 1), (''##UNK##'', 2)])
       (Dict [(''A'', Dict [(''A'', 1), (''B'', 1), (''##UNK##'', 1)]),
              (''B'', Dict [(''B'', 1), (''##UNK##'', 3)]),
              (''##UNK##'', Dict [(''##UNK##'', 2)])]) ''##UNK##''
     = Inr (StateMatrix [(''A'', 1/4), (''B'', 1/4), (''##UNK##'', 1/2)] ''##UNK##'',
            StateMatrix
              [(''A'', StateMatrix [(''A'', 6004799503160661 / 2 ^ 54),
                                    (''B'', 6004799503160661 / 2 ^ 54),
                                    (''##UNK##'', 6004799503160661 / 2 ^ 54)] ''##UNK##''),
               (''B'', StateMatrix [(''B'', 1/4), (''##UNK##'', 3/4)] ''##UNK##''),
               (''##UNK##'', StateMatrix [(''##UNK##'', 1)] ''##UNK##'')] ''##UNK##'')
   \<and> compute_values_probs (Dict [(''A'', 1), (''B'', 1), (''##UNK##'', 2)])
       (Dict [(''A'', Dict [(''A'', 1), (''B'', 1), (''##UNK##'', 1)]),
              (''B'', Dict [(''B'', 1), (''##UNK##'', 3)]),
              (''##UNK##'', Dict [(''##UNK##'', 2)])]) ''##UNK##''
     = Inr (StateMatrix [(''A'', 1/4), (''B'', 1/4), (''##UNK##'', 1/2)] ''##UNK##'',
            StateMatrix
              [(''A'', StateMatrix [(''A'', 6004799503160661 / 2 ^ 54),
                                    (''B'', 6004799503160661 / 2 ^ 54),
                                    (''##UNK##'', 6004799503160661 / 2 ^ 54)] ''##UNK##''),
               (''B'', StateMatrix [(''B'', 1/4), (''##UNK##'', 3/4)] ''##UNK##''),
               (''##UNK##'', StateMatrix [(''##UNK##'', 1)] ''##UNK##'')] ''##UNK##'')
   \<and> row_stochastic
        (StateMatrix
           [(''A'', StateMatrix [(''A'', 6004799503160661 / 2 ^ 54),
                                 (''B'', 6004799503160661 / 2 ^ 54),
                                 (''##UNK##'', 6004799503160661 / 2 ^ 54)] ''##UNK##''),
            (''B'', StateMatrix [(''B'', 1/4), (''##UNK##'', 3/4)] ''##UNK##''),
            (''##UNK##'', StateMatrix [(''##UNK##'', 1)] ''##UNK##'')] ''##UNK##'')
   \<and> sum_list [6004799503160661 / 2 ^ 54, 6004799503160661 / 2 ^ 54,
                6004799503160661 / 2 ^ 54] = (1::real) - 1 / 2 ^ 54"
proof -
  let ?s = "Dict [(''A'', 1), (''B'', 1), (''##UNK##'', 2::int)]"
  let ?t = "Dict [(''A'', Dict [(''A'', 1), (''B'', 1), (''##UNK##'', 1)]),
                  (''B'', Dict [(''B'', 1), (''##UNK##'', 3)]),
                  (''##UNK##'', Dict [(''##UNK##'', 2::int)])]"
  let ?P = "StateMatrix [(''A'', 1/4), (''B'', 1/4), (''##UNK##'', 1/2::real)] ''##UNK##''"
  let ?T = "StateMatrix
              [(''A'', StateMatrix [(''A'', 6004799503160661 / 2 ^ 54),
                                    (''B'', 6004799503160661 / 2 ^ 54),
                                    (''##UNK##'', 6004799503160661 / 2 ^ 54)] ''##UNK##''),
               (''B'', StateMatrix [(''B'', 1/4), (''##UNK##'', 3/4)] ''##UNK##''),
               (''##UNK##'', StateMatrix [(''##UNK##'', 1::real)] ''##UNK##'')] ''##UNK##''"
  have wf: "wf_table2 ?t" by (simp add: wf_table2_def keys_def dict_values_def)
  have nn: "nonneg_counts ?t" by (simp add: nonneg_counts_def dict_values_def)
  have pos: "positive_rows ?t" by (simp add: positive_rows_def dict_values_def)
  have unk: "holds_unknown ?t ''##UNK##''"
    by (simp add: holds_unknown_def keys_def dict_values_def)
  have cnt: "counted ?s" by (simp add: counted_def keys_def dict_values_def)
  have cmds: "compute_cmds_probs ?s ?t ''##UNK##'' = Inr (?P, ?T)"
    by (simp add: probs_eval)
  have pars: "compute_params_probs ?s ?t ''##UNK##'' = Inr (?P, ?T)"
    by (simp add: probs_eval)
  have vals: "compute_values_probs ?s ?t ''##UNK##'' = Inr (?P, ?T)"
    by (simp add: probs_eval)
  have "row_stochastic ?T"
    using C7_conditional_tables_row_stochastic [OF wf nn pos] cmds by blast
  moreover have "sum_list [6004799503160661 / 2 ^ 54, 6004799503160661 / 2 ^ 54,
                6004799503160661 / 2 ^ 54] = (1::real) - 1 / 2 ^ 54"
    by simp
  ultimately show ?thesis using wf nn pos unk cnt cmds pars vals by blast
qed

section \<open>Properties of the counting pass\<close>

subsection \<open>Loops and counters\<close>

lemma fold_invariant:
  assumes "P s" and "\<And>x t. x \<in> set xs \<Longrightarrow> P t \<Longrightarrow> P (f x t)"
  shows "P (fold f xs s)"
  using assms by (induction xs arbitrary: s) auto

lemma fold_union_eq:
  assumes "\<And>x c. V (f x c) = V c \<union> g x"
  shows "V (fold f xs c) = V c \<union> (\<Union>x\<in>set xs. g x)"
  by (induction xs arbitrary: c) (auto simp: assms)

lemma fold_union_sup:
  assumes "\<And>x c. V c \<union> g x \<subseteq> V (f x c)"
  shows "V c \<union> (\<Union>x\<in>set xs. g x) \<subseteq> V (fold f xs c)"
proof (induction xs arbitrary: c)
  case Nil
  then show ?case by simp
next
  case (Cons x xs)
  have "V c \<union> g x \<subseteq> V (f x c)" by (rule assms)
  moreover have "V (f x c) \<union> (\<Union>y\<in>set xs. g y) \<subseteq> V (fold f xs (f x c))" by (rule Cons.IH)
  ultimately show ?case by auto
qed

lemma keys_incr [simp]: "set (keys (incr k d)) = insert k (set (keys d))"
  by (simp add: incr_def keys_def dom_update)

lemma distinct_incr [simp]: "distinct (keys d) \<Longrightarrow> distinct (keys (incr k d))"
  by (simp add: incr_def keys_def distinct_update)

lemma keys_incr2 [simp]: "set (keys (incr2 k1 k2 dd)) = insert k1 (set (keys dd))"
  by (simp add: incr2_def keys_def dom_update)

lemma distinct_incr2 [simp]: "distinct (keys dd) \<Longrightarrow> distinct (keys (incr2 k1 k2 dd))"
  by (simp add: incr2_def keys_def distinct_update)

lemma row_of_incr2:
  "row_of (incr2 k1 k2 dd) k = (if k = k1 then incr k2 (row_of dd k1) else row_of dd k)"
  by (simp add: incr2_def row_of_def update_conv')

lemma keys_touch [simp]: "set (keys (touch k dd)) = insert k (set (keys dd))"
  by (auto simp: touch_def keys_def split: option.splits dest: map_of_SomeD
      simp: rev_image_eqI)

lemma distinct_touch [simp]: "distinct (keys dd) \<Longrightarrow> distinct (keys (touch k dd))"
  by (auto simp: touch_def keys_def map_of_eq_None_iff split: option.splits)

lemma row_of_touch [simp]: "row_of (touch k dd) k' = row_of dd k'"
  by (auto simp: touch_def row_of_def map_add_def split: option.splits)

lemma rk_incr2 [simp]: "rk (incr2 k1 k2 dd) = insert (k1, k2) (rk dd)"
  by (auto simp: rk_def row_of_incr2 split: if_splits)

lemma rk_touch [simp]: "rk (touch k dd) = rk dd"
  by (simp add: rk_def)

lemma rk_keys: "(k1, k2) \<in> rk dd \<Longrightarrow> k1 \<in> set (keys dd)"
proof -
  assume "(k1, k2) \<in> rk dd"
  then have "row_of dd k1 \<noteq> []" by (auto simp: rk_def keys_def)
  then obtain r where "map_of dd k1 = Some r" by (auto simp: row_of_def split: option.splits)
  then have "(k1, r) \<in> set dd" by (rule map_of_SomeD)
  then show ?thesis by (force simp: keys_def)
qed

lemma pos1_incr: "pos1 d \<Longrightarrow> pos1 (incr k d)"
  by (fastforce simp: pos1_def incr_def update_conv' split: option.splits if_splits)

lemma pos2_incr2 [simp]: "pos2 dd \<Longrightarrow> pos2 (incr2 k1 k2 dd)"
  by (simp add: pos2_def row_of_incr2 pos1_incr)

lemma pos2_touch [simp]: "pos2 dd \<Longrightarrow> pos2 (touch k dd)"
  by (simp add: pos2_def)

lemma pos2_empty [simp]: "pos2 []"
  by (simp add: pos2_def pos1_def row_of_def)

lemma rk_empty [simp]: "rk [] = {}"
  by (simp add: rk_def row_of_def keys_def)

lemma keys_Nil [simp]: "keys [] = []"
  by (simp add: keys_def)

lemma fold2_union_eq:
  assumes "\<And>a b c. V (f a b c) = V c \<union> g a b"
  shows "V (fold (\<lambda>a. fold (f a) bs) as c) = V c \<union> (\<Union>a\<in>set as. \<Union>b\<in>set bs. g a b)"
proof -
  have inner: "V (fold (f a) bs c) = V c \<union> (\<Union>b\<in>set bs. g a b)" for a c
    by (rule fold_union_eq) (rule assms)
  show ?thesis
    by (rule fold_union_eq [where f = "\<lambda>a. fold (f a) bs" and g = "\<lambda>a. \<Union>b\<in>set bs. g a b"])
      (rule inner)
qed

lemma fold2_union_sup:
  assumes "\<And>a b c. V c \<union> g a b \<subseteq> V (f a b c)"
  shows "V c \<union> (\<Union>a\<in>set as. \<Union>b\<in>set bs. g a b) \<subseteq> V (fold (\<lambda>a. fold (f a) bs) as c)"
proof -
  have inner: "V c \<union> (\<Union>b\<in>set bs. g a b) \<subseteq> V (fold (f a) bs c)" for a c
    by (rule fold_union_sup) (rule assms)
  show ?thesis
    by (rule fold_union_sup [where f = "\<lambda>a. fold (f a) bs" and g = "\<lambda>a. \<Union>b\<in>set bs. g a b"])
      (rule inner)
qed

lemma fold2_invariant:
  assumes "P c" and "\<And>a b t. P t \<Longrightarrow> P (f a b t)"
  shows "P (fold (\<lambda>a. fold (f a) bs) as c)"
proof (rule fold_invariant [where P = P])
  show "P c" by (rule assms(1))
next
  fix a t assume t: "P t"
  show "P (fold (f a) bs t)"
  proof (rule fold_invariant [where P = P])
    show "P t" by (rule t)
  next
    fix b t' assume "P t'"
    then show "P (f a b t')" by (rule assms(2))
  qed
qed

subsection \<open>Smoothing of the commands\<close>

lemma smooth_cmds_rk:
  "rk (seq2_c (smooth_cmds s e cmds c))
     = rk (seq2_c c) \<union> {(c1, c2). c1 \<in> set cmds \<and> c2 \<in> set cmds \<and> c1 \<noteq> e \<and> c2 \<noteq> s}"
proof -
  have "rk (seq2_c (smooth_cmds s e cmds c))
      = rk (seq2_c c) \<union> (\<Union>c1\<in>set cmds. \<Union>c2\<in>set cmds.
           if c1 \<noteq> e \<and> c2 \<noteq> s then {(c1, c2)} else {})"
    unfolding smooth_cmds_def
    by (rule fold2_union_eq [where V = "\<lambda>c. rk (seq2_c c)"]) (simp add: smooth_cmd_pair_def)
  then show ?thesis by (auto split: if_splits)
qed

lemma smooth_cmds_keys2:
  "set (keys (seq2_c (smooth_cmds s e cmds c)))
     = set (keys (seq2_c c)) \<union> {c1 \<in> set cmds. c1 \<noteq> e \<and> (\<exists>c2\<in>set cmds. c2 \<noteq> s)}"
proof -
  have "set (keys (seq2_c (smooth_cmds s e cmds c)))
      = set (keys (seq2_c c)) \<union> (\<Union>c1\<in>set cmds. \<Union>c2\<in>set cmds.
           if c1 \<noteq> e \<and> c2 \<noteq> s then {c1} else {})"
    unfolding smooth_cmds_def
    by (rule fold2_union_eq [where V = "\<lambda>c. set (keys (seq2_c c))"])
      (simp add: smooth_cmd_pair_def)
  then show ?thesis by (auto split: if_splits)
qed

lemma smooth_cmds_keys1:
  "set (keys (seq1_c (smooth_cmds s e cmds c)))
     = set (keys (seq1_c c)) \<union> (\<Union>c1\<in>set cmds. \<Union>c2\<in>set cmds.
           if c1 \<noteq> e \<and> c2 \<noteq> s then {c1, c2} else {})"
  unfolding smooth_cmds_def
  by (rule fold2_union_eq [where V = "\<lambda>c. set (keys (seq1_c c))"])
    (auto simp: smooth_cmd_pair_def)

lemma smooth_cmds_distinct2:
  "distinct (keys (seq2_c c)) \<Longrightarrow> distinct (keys (seq2_c (smooth_cmds s e cmds c)))"
  unfolding smooth_cmds_def
  by (rule fold2_invariant [where P = "\<lambda>c. distinct (keys (seq2_c c))"])
    (simp_all add: smooth_cmd_pair_def)

lemma smooth_cmds_pos2:
  "pos2 (seq2_c c) \<Longrightarrow> pos2 (seq2_c (smooth_cmds s e cmds c))"
  unfolding smooth_cmds_def
  by (rule fold2_invariant [where P = "\<lambda>c. pos2 (seq2_c c)"])
    (simp_all add: smooth_cmd_pair_def)

lemma smooth_cmds_param [simp]: "param_c (smooth_cmds s e cmds c) = param_c c"
  unfolding smooth_cmds_def
  by (rule fold2_invariant [where P = "\<lambda>t. param_c t = param_c c"])
    (simp_all add: smooth_cmd_pair_def)

lemma smooth_cmds_cmd_param [simp]: "cmd_param_c (smooth_cmds s e cmds c) = cmd_param_c c"
  unfolding smooth_cmds_def
  by (rule fold2_invariant [where P = "\<lambda>t. cmd_param_c t = cmd_param_c c"])
    (simp_all add: smooth_cmd_pair_def)

lemma smooth_cmds_value [simp]: "value_c (smooth_cmds s e cmds c) = value_c c"
  unfolding smooth_cmds_def
  by (rule fold2_invariant [where P = "\<lambda>t. value_c t = value_c c"])
    (simp_all add: smooth_cmd_pair_def)

lemma smooth_cmds_param_value [simp]:
  "param_value_c (smooth_cmds s e cmds c) = param_value_c c"
  unfolding smooth_cmds_def
  by (rule fold2_invariant [where P = "\<lambda>t. param_value_c t = param_value_c c"])
    (simp_all add: smooth_cmd_pair_def)

subsection \<open>Smoothing of a conditional counter\<close>

lemma smooth_cond_rk:
  "rk (snd (smooth_cond u as bs st))
     = rk (snd st) \<union> {(a, b). a \<in> set as \<and> b \<in> set bs \<and> b = u}"
proof -
  have pair: "rk (snd (smooth_cond_pair u a b st)) = rk (snd st) \<union> (if b = u then {(a, b)} else {})"
    for a b st
  proof (cases st)
    case (Pair uni joint)
    have mem: "b \<in> set (keys (row_of joint a)) \<longleftrightarrow> (a, b) \<in> rk joint"
      by (simp add: rk_def)
    show ?thesis by (auto simp: Pair smooth_cond_pair_def Let_def mem)
  qed
  have "rk (snd (smooth_cond u as bs st))
      = rk (snd st) \<union> (\<Union>a\<in>set as. \<Union>b\<in>set bs. if b = u then {(a, b)} else {})"
    unfolding smooth_cond_def
    by (rule fold2_union_eq [where V = "\<lambda>st. rk (snd st)"]) (rule pair)
  then show ?thesis by (auto split: if_splits)
qed

lemma smooth_cond_keys2:
  "set (keys (snd (smooth_cond u as bs st)))
     = set (keys (snd st)) \<union> (if bs = [] then {} else set as)"
proof -
  have pair: "set (keys (snd (smooth_cond_pair u a b st))) = set (keys (snd st)) \<union> {a}"
    for a b st
    by (cases st) (auto simp: smooth_cond_pair_def Let_def)
  have "set (keys (snd (smooth_cond u as bs st)))
      = set (keys (snd st)) \<union> (\<Union>a\<in>set as. \<Union>b\<in>set bs. {a})"
    unfolding smooth_cond_def
    by (rule fold2_union_eq [where V = "\<lambda>st. set (keys (snd st))"]) (rule pair)
  moreover have "(\<Union>a\<in>set as. \<Union>b\<in>set bs. {a}) = (if set bs = {} then {} else set as)"
    by auto
  ultimately show ?thesis by simp
qed

lemma smooth_cond_keys1:
  "set (keys (fst st)) \<union> {b. as \<noteq> [] \<and> b \<in> set bs \<and> b = u}
     \<subseteq> set (keys (fst (smooth_cond u as bs st)))"
proof -
  have pair: "set (keys (fst st)) \<union> (if b = u then {b} else {})
      \<subseteq> set (keys (fst (smooth_cond_pair u a b st)))" for a b st
    by (cases st) (auto simp: smooth_cond_pair_def Let_def)
  have "set (keys (fst st)) \<union> (\<Union>a\<in>set as. \<Union>b\<in>set bs. if b = u then {b} else {})
      \<subseteq> set (keys (fst (smooth_cond u as bs st)))"
    unfolding smooth_cond_def
    by (rule fold2_union_sup [where V = "\<lambda>st. set (keys (fst st))"]) (rule pair)
  moreover have "{b. as \<noteq> [] \<and> b \<in> set bs \<and> b = u}
      \<subseteq> (\<Union>a\<in>set as. \<Union>b\<in>set bs. if b = u then {b} else {})"
    by (cases as) auto
  ultimately show ?thesis by blast
qed

lemma smooth_cond_distinct2:
  "distinct (keys (snd st)) \<Longrightarrow> distinct (keys (snd (smooth_cond u as bs st)))"
  unfolding smooth_cond_def
proof (rule fold2_invariant [where P = "\<lambda>st. distinct (keys (snd st))"])
  fix a b t assume "distinct (keys (snd (t :: int dict \<times> int dict dict)))"
  then show "distinct (keys (snd (smooth_cond_pair u a b t)))"
    by (cases t) (simp add: smooth_cond_pair_def Let_def)
qed

lemma param_ok_po: "param_ok count_param_po"
  by (auto simp: param_ok_def count_param_po_def)

lemma param_ok_pv: "param_ok count_param_pv"
  by (auto simp: param_ok_def count_param_pv_def split: prod.splits)

lemma params_fold_inv:
  fixes cp :: "string \<Rightarrow> 'q \<Rightarrow> 'a counts_scheme \<Rightarrow> 'a counts_scheme"
  assumes "param_ok cp" and "inv_counted E c" and "n \<in> set (keys (seq1_c c))"
  shows "inv_counted E (fold (cp n) ps c) \<and> seq1_c (fold (cp n) ps c) = seq1_c c"
proof (rule fold_invariant [where P = "\<lambda>t. inv_counted E t \<and> seq1_c t = seq1_c c"])
  show "inv_counted E c \<and> seq1_c c = seq1_c c" using assms(2) by simp
next
  fix p and t :: "'a counts_scheme"
  assume t: "inv_counted E t \<and> seq1_c t = seq1_c c"
  from assms(1) have ok: "seq1_c (cp n p t) = seq1_c t" "seq2_c (cp n p t) = seq2_c t"
    "set (keys (cmd_param_c (cp n p t))) \<subseteq> insert n (set (keys (cmd_param_c t)))"
    "distinct (keys (cmd_param_c t)) \<longrightarrow> distinct (keys (cmd_param_c (cp n p t)))"
    by (simp_all add: param_ok_def)
  show "inv_counted E (cp n p t) \<and> seq1_c (cp n p t) = seq1_c c"
    using t ok assms(3) by (auto simp: inv_counted_def)
qed

lemma count_cmd_inv:
  assumes "param_ok cp" and "session_inv E st" and "name cmd \<notin> E"
  shows "session_inv E (count_cmd cp cmd st)"
proof -
  obtain prev c where st: "st = (prev, c)" by (cases st)
  let ?c0 = "c\<lparr>seq1_c := incr (name cmd) (seq1_c c),
               seq2_c := incr2 prev (name cmd) (seq2_c c)\<rparr>"
  have inv0: "inv_counted E ?c0"
    using assms(2) by (auto simp: session_inv_def st inv_counted_def)
  have n0: "name cmd \<in> set (keys (seq1_c ?c0))" by simp
  from params_fold_inv [OF assms(1) inv0 n0, of "params cmd"]
  show ?thesis using assms(3) by (simp add: session_inv_def st count_cmd_def)
qed

lemma count_session_inv:
  assumes "param_ok cp" and "inv_counted E c" and "s \<notin> E"
    and "\<forall>cmd\<in>set session. name cmd \<notin> E"
  shows "inv_counted E (count_session cp s e session c)"
proof -
  let ?st0 = "(s, c\<lparr>seq1_c := incr s (seq1_c c)\<rparr>)"
  have "session_inv E ?st0"
    using assms(2,3) by (auto simp: session_inv_def inv_counted_def)
  then have "session_inv E (fold (count_cmd cp) session ?st0)"
    by (rule fold_invariant) (use assms(1,4) in \<open>auto intro: count_cmd_inv\<close>)
  then show ?thesis
    by (auto simp: count_session_def session_inv_def inv_counted_def split: prod.splits)
qed

lemma counted_inv:
  fixes cp :: "string \<Rightarrow> 'q \<Rightarrow> 'a counts_scheme \<Rightarrow> 'a counts_scheme"
  assumes "param_ok cp" and "inv_counted E c" and "s \<notin> E"
    and "\<forall>session\<in>set sessions. \<forall>cmd\<in>set session. name cmd \<notin> E"
  shows "inv_counted E (fold (count_session cp s e) sessions c)"
proof (rule fold_invariant [where P = "inv_counted E"])
  show "inv_counted E c" by (rule assms(2))
next
  fix session and t :: "'a counts_scheme"
  assume "session \<in> set sessions" "inv_counted E t"
  then show "inv_counted E (count_session cp s e session t)"
    using assms(1,3,4) by (auto intro: count_session_inv)
qed

lemma inv_counted_empty:
  "inv_counted E empty_counts_po" "inv_counted E empty_counts_pv"
  by (simp_all add: inv_counted_def empty_counts_po_def empty_counts_pv_def)

subsection \<open>The command names that are counted\<close>

lemma params_fold_seq1:
  fixes cp :: "string \<Rightarrow> 'q \<Rightarrow> 'a counts_scheme \<Rightarrow> 'a counts_scheme"
  assumes "param_ok cp"
  shows "seq1_c (fold (cp n) ps c) = seq1_c c"
proof (rule fold_invariant [where P = "\<lambda>t. seq1_c t = seq1_c c"])
  show "seq1_c c = seq1_c c" by simp
next
  fix p and t :: "'a counts_scheme"
  assume "seq1_c t = seq1_c c"
  then show "seq1_c (cp n p t) = seq1_c c" using assms by (simp add: param_ok_def)
qed

lemma count_session_keys1:
  assumes "param_ok cp"
  shows "set (keys (seq1_c (count_session cp s e session c)))
           = set (keys (seq1_c c)) \<union> ({s, e} \<union> name ` set session)"
proof -
  have step: "set (keys (seq1_c (snd (count_cmd cp cmd st))))
      = set (keys (seq1_c (snd st))) \<union> {name cmd}" for cmd st
    by (cases st) (simp add: count_cmd_def params_fold_seq1 [OF assms])
  have "set (keys (seq1_c (snd (fold (count_cmd cp) session st))))
      = set (keys (seq1_c (snd st))) \<union> (\<Union>cmd\<in>set session. {name cmd})" for st
    by (rule fold_union_eq [where V = "\<lambda>st. set (keys (seq1_c (snd st)))"]) (rule step)
  from this [of "(s, c\<lparr>seq1_c := incr s (seq1_c c)\<rparr>)"] show ?thesis
    by (auto simp: count_session_def split: prod.splits)
qed

lemma counted_keys1:
  assumes "param_ok cp"
  shows "set (keys (seq1_c (fold (count_session cp s e) sessions c)))
           = set (keys (seq1_c c))
             \<union> ((if sessions = [] then {} else {s, e})
                \<union> (\<Union>session\<in>set sessions. name ` set session))"
proof -
  have "set (keys (seq1_c (fold (count_session cp s e) sessions c)))
      = set (keys (seq1_c c)) \<union> (\<Union>session\<in>set sessions. {s, e} \<union> name ` set session)"
    by (rule fold_union_eq [where V = "\<lambda>c. set (keys (seq1_c c))"])
      (rule count_session_keys1 [OF assms])
  then show ?thesis by (cases sessions) auto
qed

subsection \<open>Counters that the loops over the commands leave alone\<close>

lemma count_session_inv2:
  assumes "Q c"
    and "\<And>c x. Q c \<Longrightarrow> Q (c\<lparr>seq1_c := x\<rparr>)"
    and "\<And>c x. Q c \<Longrightarrow> Q (c\<lparr>seq2_c := x\<rparr>)"
    and "\<And>n p c. Q c \<Longrightarrow> Q (cp n p c)"
  shows "Q (count_session cp s e session c)"
proof -
  have cmd: "Q (snd (count_cmd cp cmd st))" if "Q (snd st)" for cmd st
  proof (cases st)
    case (Pair prev t)
    have "Q (t\<lparr>seq1_c := incr (name cmd) (seq1_c t),
               seq2_c := incr2 prev (name cmd) (seq2_c t)\<rparr>)"
      using that Pair assms(2,3) by simp
    then have "Q (fold (cp (name cmd)) (params cmd)
               (t\<lparr>seq1_c := incr (name cmd) (seq1_c t),
                  seq2_c := incr2 prev (name cmd) (seq2_c t)\<rparr>))"
      by (rule fold_invariant) (rule assms(4))
    then show ?thesis by (simp add: Pair count_cmd_def)
  qed
  have "Q (snd (s, c\<lparr>seq1_c := incr s (seq1_c c)\<rparr>))" using assms(1,2) by simp
  then have "Q (snd (fold (count_cmd cp) session (s, c\<lparr>seq1_c := incr s (seq1_c c)\<rparr>)))"
    by (rule fold_invariant [where P = "\<lambda>st. Q (snd st)"]) (rule cmd)
  then show ?thesis
    using assms(2,3) by (auto simp: count_session_def split: prod.splits)
qed

lemma counted_pv_inv: "inv_pv (counted_pv sessions s e)"
  unfolding counted_pv_def
proof (rule fold_invariant [where P = inv_pv])
  show "inv_pv empty_counts_pv" by (simp add: inv_pv_def empty_counts_pv_def)
next
  fix session t assume "inv_pv t"
  then show "inv_pv (count_session count_param_pv s e session t)"
    by (rule count_session_inv2)
      (auto simp: inv_pv_def count_param_pv_def split: prod.splits)
qed

lemma state_matrix_iff:
  "state_matrix d u = Inr t \<longleftrightarrow> meets_invariant d u \<and> t = StateMatrix d u"
  by (auto simp: state_matrix_def meets_invariant_def)

lemma state_matrix2_iff:
  "state_matrix2 dd u = Inr t \<longleftrightarrow> meets_invariant2 dd u \<and> t = wrap_rows dd u"
  by (auto simp: state_matrix2_def meets_invariant2_def wrap_rows_def)

lemma meets_invariant2_rk:
  assumes "distinct (keys dd)" and "u \<in> set (keys dd)"
    and "\<forall>k \<in> set (keys dd). (k, u) \<in> rk dd"
  shows "meets_invariant2 dd u"
proof -
  have "u \<in> set (keys row)" if "row \<in> set (dict_values dd)" for row
  proof -
    from that obtain k where k: "(k, row) \<in> set dd" by (auto simp: dict_values_def)
    then have "map_of dd k = Some row" using assms(1) by (simp add: keys_def)
    then have "row_of dd k = row" by (simp add: row_of_def)
    moreover have "(k, u) \<in> rk dd" using assms(3) k by (force simp: keys_def)
    ultimately show ?thesis by (simp add: rk_def)
  qed
  moreover have "dd \<noteq> []" using assms(2) by auto
  ultimately show ?thesis using assms(2) by (simp add: meets_invariant2_def list_all_iff)
qed

lemma smooth_cmds_tables:
  fixes c :: "'a counts_scheme"
  assumes "inv_counted {e} c" and "s \<noteq> u" and "e \<noteq> u"
  shows "meets_invariant (seq1_c (smooth_cmds s e (cmds_vocab c u) c)) u"
    and "meets_invariant2 (seq2_c (smooth_cmds s e (cmds_vocab c u) c)) u"
proof -
  let ?cmds = "cmds_vocab c u"
  let ?c1 = "smooth_cmds s e ?cmds c"
  have u: "u \<in> set ?cmds" by (simp add: cmds_vocab_def)
  have "u \<in> set (keys (seq1_c ?c1))"
    unfolding smooth_cmds_keys1 using u assms(2,3) by auto
  then show "meets_invariant (seq1_c ?c1) u" by (auto simp: meets_invariant_def)
  have d: "distinct (keys (seq2_c ?c1))"
    using assms(1) by (simp add: smooth_cmds_distinct2 inv_counted_def)
  have u2: "u \<in> set (keys (seq2_c ?c1))"
    unfolding smooth_cmds_keys2 using u assms(2,3) by auto
  have "(k, u) \<in> rk (seq2_c ?c1)" if "k \<in> set (keys (seq2_c ?c1))" for k
  proof -
    from that have "k \<in> set ?cmds \<and> k \<noteq> e"
      unfolding smooth_cmds_keys2 using assms(1) by (auto simp: inv_counted_def cmds_vocab_def)
    then show ?thesis unfolding smooth_cmds_rk using u assms(2) by auto
  qed
  with d u2 show "meets_invariant2 (seq2_c ?c1) u" by (intro meets_invariant2_rk) auto
qed

lemma smooth_cond_tables:
  assumes "distinct (keys joint)" and "set (keys joint) \<subseteq> set as"
    and "u \<in> set as" and "u \<in> set bs"
  shows "meets_invariant (fst (smooth_cond u as bs (uni, joint))) u"
    and "meets_invariant2 (snd (smooth_cond u as bs (uni, joint))) u"
proof -
  let ?r = "smooth_cond u as bs (uni, joint)"
  have as: "as \<noteq> []" and bs: "bs \<noteq> []" using assms(3,4) by auto
  have "u \<in> set (keys (fst ?r))"
    using smooth_cond_keys1 [of "(uni, joint)" as bs u] as assms(4) by auto
  then show "meets_invariant (fst ?r) u" by (auto simp: meets_invariant_def)
  have d: "distinct (keys (snd ?r))" using assms(1) by (simp add: smooth_cond_distinct2)
  have k: "set (keys (snd ?r)) = set as"
    using assms(2) bs by (auto simp: smooth_cond_keys2)
  have "(k, u) \<in> rk (snd ?r)" if "k \<in> set as" for k
    unfolding smooth_cond_rk using that assms(4) by simp
  with d k assms(3) show "meets_invariant2 (snd ?r) u" by (intro meets_invariant2_rk) auto
qed

lemma seq_of_smoothed_po:
  "seq1_c (smoothed_po sessions s e u)
     = seq1_c (smooth_cmds s e (cmds_vocab (counted_po sessions s e) u) (counted_po sessions s e))"
  "seq2_c (smoothed_po sessions s e u)
     = seq2_c (smooth_cmds s e (cmds_vocab (counted_po sessions s e) u) (counted_po sessions s e))"
  by (simp_all add: smoothed_po_def Let_def split: prod.splits)

lemma seq_of_smoothed_pv:
  "seq1_c (smoothed_pv sessions s e u)
     = seq1_c (smooth_cmds s e (cmds_vocab (counted_pv sessions s e) u) (counted_pv sessions s e))"
  "seq2_c (smoothed_pv sessions s e u)
     = seq2_c (smooth_cmds s e (cmds_vocab (counted_pv sessions s e) u) (counted_pv sessions s e))"
  by (simp_all add: smoothed_pv_def Let_def split: prod.splits)

lemma params_of_smoothed_po:
  "param_c (smoothed_po sessions s e u)
     = fst (smooth_cond u (cmds_vocab (counted_po sessions s e) u)
              (keys (param_c (counted_po sessions s e)) @ [u])
              (param_c (counted_po sessions s e), cmd_param_c (counted_po sessions s e)))"
  "cmd_param_c (smoothed_po sessions s e u)
     = snd (smooth_cond u (cmds_vocab (counted_po sessions s e) u)
              (keys (param_c (counted_po sessions s e)) @ [u])
              (param_c (counted_po sessions s e), cmd_param_c (counted_po sessions s e)))"
  by (simp_all add: smoothed_po_def Let_def split: prod.splits)

lemma params_of_smoothed_pv:
  "param_c (smoothed_pv sessions s e u)
     = fst (smooth_cond u (cmds_vocab (counted_pv sessions s e) u)
              (keys (param_c (counted_pv sessions s e)) @ [u])
              (param_c (counted_pv sessions s e), cmd_param_c (counted_pv sessions s e)))"
  "cmd_param_c (smoothed_pv sessions s e u)
     = snd (smooth_cond u (cmds_vocab (counted_pv sessions s e) u)
              (keys (param_c (counted_pv sessions s e)) @ [u])
              (param_c (counted_pv sessions s e), cmd_param_c (counted_pv sessions s e)))"
  "value_c (smoothed_pv sessions s e u)
     = fst (smooth_cond u (keys (param_c (counted_pv sessions s e)) @ [u])
              (keys (value_c (counted_pv sessions s e)) @ [u])
              (value_c (counted_pv sessions s e), param_value_c (counted_pv sessions s e)))"
  "param_value_c (smoothed_pv sessions s e u)
     = snd (smooth_cond u (keys (param_c (counted_pv sessions s e)) @ [u])
              (keys (value_c (counted_pv sessions s e)) @ [u])
              (value_c (counted_pv sessions s e), param_value_c (counted_pv sessions s e)))"
  by (simp_all add: smoothed_pv_def Let_def split: prod.splits)

lemma counted_po_inv:
  assumes "s \<notin> E" and "\<forall>session\<in>set sessions. \<forall>cmd\<in>set session. name cmd \<notin> E"
  shows "inv_counted E (counted_po sessions s e)"
  unfolding counted_po_def
  by (rule counted_inv [OF param_ok_po inv_counted_empty(1) assms])

lemma counted_pv_inv_base:
  assumes "s \<notin> E" and "\<forall>session\<in>set sessions. \<forall>cmd\<in>set session. name cmd \<notin> E"
  shows "inv_counted E (counted_pv sessions s e)"
  unfolding counted_pv_def
  by (rule counted_inv [OF param_ok_pv inv_counted_empty(2) assms])

lemma smoothed_po_tables:
  assumes "s \<noteq> e" and "s \<noteq> u" and "e \<noteq> u"
    and "\<forall>session\<in>set sessions. \<forall>cmd\<in>set session. name cmd \<noteq> e"
  shows "meets_invariant (seq1_c (smoothed_po sessions s e u)) u"
    and "meets_invariant2 (seq2_c (smoothed_po sessions s e u)) u"
    and "meets_invariant (param_c (smoothed_po sessions s e u)) u"
    and "meets_invariant2 (cmd_param_c (smoothed_po sessions s e u)) u"
proof -
  let ?c = "counted_po sessions s e"
  have inv: "inv_counted {e} ?c" using assms(1,4) by (intro counted_po_inv) auto
  show "meets_invariant (seq1_c (smoothed_po sessions s e u)) u"
    and "meets_invariant2 (seq2_c (smoothed_po sessions s e u)) u"
    unfolding seq_of_smoothed_po by (rule smooth_cmds_tables [OF inv assms(2,3)])+
  have d: "distinct (keys (cmd_param_c ?c))" using inv by (simp add: inv_counted_def)
  have k: "set (keys (cmd_param_c ?c)) \<subseteq> set (cmds_vocab ?c u)"
    using inv by (auto simp: inv_counted_def cmds_vocab_def)
  have u1: "u \<in> set (cmds_vocab ?c u)" by (simp add: cmds_vocab_def)
  have u2: "u \<in> set (keys (param_c ?c) @ [u])" by simp
  show "meets_invariant (param_c (smoothed_po sessions s e u)) u"
    and "meets_invariant2 (cmd_param_c (smoothed_po sessions s e u)) u"
    unfolding params_of_smoothed_po by (rule smooth_cond_tables [OF d k u1 u2])+
qed

lemma smoothed_pv_tables:
  assumes "s \<noteq> e" and "s \<noteq> u" and "e \<noteq> u"
    and "\<forall>session\<in>set sessions. \<forall>cmd\<in>set session. name cmd \<noteq> e"
  shows "meets_invariant (seq1_c (smoothed_pv sessions s e u)) u"
    and "meets_invariant2 (seq2_c (smoothed_pv sessions s e u)) u"
    and "meets_invariant (param_c (smoothed_pv sessions s e u)) u"
    and "meets_invariant2 (cmd_param_c (smoothed_pv sessions s e u)) u"
    and "meets_invariant (value_c (smoothed_pv sessions s e u)) u"
    and "meets_invariant2 (param_value_c (smoothed_pv sessions s e u)) u"
proof -
  let ?c = "counted_pv sessions s e"
  have inv: "inv_counted {e} ?c" using assms(1,4) by (intro counted_pv_inv_base) auto
  show "meets_invariant (seq1_c (smoothed_pv sessions s e u)) u"
    and "meets_invariant2 (seq2_c (smoothed_pv sessions s e u)) u"
    unfolding seq_of_smoothed_pv by (rule smooth_cmds_tables [OF inv assms(2,3)])+
  have d: "distinct (keys (cmd_param_c ?c))" using inv by (simp add: inv_counted_def)
  have k: "set (keys (cmd_param_c ?c)) \<subseteq> set (cmds_vocab ?c u)"
    using inv by (auto simp: inv_counted_def cmds_vocab_def)
  have u1: "u \<in> set (cmds_vocab ?c u)" by (simp add: cmds_vocab_def)
  have u2: "u \<in> set (keys (param_c ?c) @ [u])" by simp
  show "meets_invariant (param_c (smoothed_pv sessions s e u)) u"
    and "meets_invariant2 (cmd_param_c (smoothed_pv sessions s e u)) u"
    unfolding params_of_smoothed_pv by (rule smooth_cond_tables [OF d k u1 u2])+
  have pv: "inv_pv ?c" by (rule counted_pv_inv)
  have d': "distinct (keys (param_value_c ?c))" using pv by (simp add: inv_pv_def)
  have k': "set (keys (param_value_c ?c)) \<subseteq> set (keys (param_c ?c) @ [u])"
    using pv by (auto simp: inv_pv_def)
  have u3: "u \<in> set (keys (value_c ?c) @ [u])" by simp
  show "meets_invariant (value_c (smoothed_pv sessions s e u)) u"
    and "meets_invariant2 (param_value_c (smoothed_pv sessions s e u)) u"
    unfolding params_of_smoothed_pv by (rule smooth_cond_tables [OF d' k' u2 u3])+
qed

text \<open>
  Claim C10 as amended: for pairwise distinct tokens and sessions in which no command is
  named like the end token, every counter that \<^verbatim>\<open>compute_counts\<close> hands to the
  \<^verbatim>\<open>StateMatrix\<close> constructor meets the construction invariant (it is not empty, the
  unknown token is a key, and for the nested counters the unknown token is a key of
  every row), so that no assertion fires and the tables are returned, in both modules.
\<close>

theorem C10_count_tables_meet_invariant:
  "(start_token \<noteq> end_token \<and> start_token \<noteq> unk_token \<and> end_token \<noteq> unk_token
      \<and> (\<forall>session\<in>set sessions. \<forall>cmd\<in>set session. name cmd \<noteq> end_token) \<longrightarrow>
      meets_invariant (seq1_c (smoothed_po sessions start_token end_token unk_token)) unk_token
      \<and> meets_invariant2 (seq2_c (smoothed_po sessions start_token end_token unk_token)) unk_token
      \<and> meets_invariant (param_c (smoothed_po sessions start_token end_token unk_token)) unk_token
      \<and> meets_invariant2 (cmd_param_c (smoothed_po sessions start_token end_token unk_token))
          unk_token
      \<and> (\<exists>tables. compute_counts_po sessions start_token end_token unk_token = Inr tables))
   \<and> (start_token \<noteq> end_token \<and> start_token \<noteq> unk_token \<and> end_token \<noteq> unk_token
      \<and> (\<forall>session\<in>set sessions'. \<forall>cmd\<in>set session. name cmd \<noteq> end_token) \<longrightarrow>
      meets_invariant (seq1_c (smoothed_pv sessions' start_token end_token unk_token)) unk_token
      \<and> meets_invariant2 (seq2_c (smoothed_pv sessions' start_token end_token unk_token)) unk_token
      \<and> meets_invariant (param_c (smoothed_pv sessions' start_token end_token unk_token)) unk_token
      \<and> meets_invariant2 (cmd_param_c (smoothed_pv sessions' start_token end_token unk_token))
          unk_token
      \<and> meets_invariant (value_c (smoothed_pv sessions' start_token end_token unk_token)) unk_token
      \<and> meets_invariant2 (param_value_c (smoothed_pv sessions' start_token end_token unk_token))
          unk_token
      \<and> (\<exists>tables. compute_counts_pv sessions' start_token end_token unk_token = Inr tables))"
proof (intro conjI impI)
  assume a: "start_token \<noteq> end_token \<and> start_token \<noteq> unk_token \<and> end_token \<noteq> unk_token
      \<and> (\<forall>session\<in>set sessions. \<forall>cmd\<in>set session. name cmd \<noteq> end_token)"
  then have t: "start_token \<noteq> end_token" "start_token \<noteq> unk_token" "end_token \<noteq> unk_token"
    "\<forall>session\<in>set sessions. \<forall>cmd\<in>set session. name cmd \<noteq> end_token" by simp_all
  note po = smoothed_po_tables [OF t]
  show "meets_invariant (seq1_c (smoothed_po sessions start_token end_token unk_token)) unk_token"
    by (rule po(1))
  show "meets_invariant2 (seq2_c (smoothed_po sessions start_token end_token unk_token)) unk_token"
    by (rule po(2))
  show "meets_invariant (param_c (smoothed_po sessions start_token end_token unk_token)) unk_token"
    by (rule po(3))
  show "meets_invariant2 (cmd_param_c (smoothed_po sessions start_token end_token unk_token))
          unk_token"
    by (rule po(4))
  show "\<exists>tables. compute_counts_po sessions start_token end_token unk_token = Inr tables"
    using po by (simp add: compute_counts_po_def Let_def ebind_Inr_iff state_matrix_iff
        state_matrix2_iff)
next
  assume a: "start_token \<noteq> end_token \<and> start_token \<noteq> unk_token \<and> end_token \<noteq> unk_token
      \<and> (\<forall>session\<in>set sessions'. \<forall>cmd\<in>set session. name cmd \<noteq> end_token)"
  then have t: "start_token \<noteq> end_token" "start_token \<noteq> unk_token" "end_token \<noteq> unk_token"
    "\<forall>session\<in>set sessions'. \<forall>cmd\<in>set session. name cmd \<noteq> end_token" by simp_all
  note pv = smoothed_pv_tables [OF t]
  show "meets_invariant (seq1_c (smoothed_pv sessions' start_token end_token unk_token)) unk_token"
    by (rule pv(1))
  show "meets_invariant2 (seq2_c (smoothed_pv sessions' start_token end_token unk_token)) unk_token"
    by (rule pv(2))
  show "meets_invariant (param_c (smoothed_pv sessions' start_token end_token unk_token)) unk_token"
    by (rule pv(3))
  show "meets_invariant2 (cmd_param_c (smoothed_pv sessions' start_token end_token unk_token))
          unk_token"
    by (rule pv(4))
  show "meets_invariant (value_c (smoothed_pv sessions' start_token end_token unk_token)) unk_token"
    by (rule pv(5))
  show "meets_invariant2 (param_value_c (smoothed_pv sessions' start_token end_token unk_token))
          unk_token"
    by (rule pv(6))
  show "\<exists>tables. compute_counts_pv sessions' start_token end_token unk_token = Inr tables"
    using pv by (simp add: compute_counts_pv_def Let_def ebind_Inr_iff state_matrix_iff
        state_matrix2_iff)
qed

lemma vocabulary_po:
  "set (cmds_vocab (counted_po sessions s e) u) = vocabulary sessions s e u"
  by (simp add: cmds_vocab_def counted_po_def counted_keys1 [OF param_ok_po]
      vocabulary_def empty_counts_po_def Un_commute)

lemma vocabulary_pv:
  "set (cmds_vocab (counted_pv sessions s e) u) = vocabulary sessions s e u"
  by (simp add: cmds_vocab_def counted_pv_def counted_keys1 [OF param_ok_pv]
      vocabulary_def empty_counts_pv_def Un_commute)

lemma stored_positive:
  assumes "(c1, c2) \<in> rk dd" and "pos2 dd"
  shows "\<exists>row n. map_of dd c1 = Some row \<and> map_of row c2 = Some n \<and> 0 < n
           \<and> getitem2 (wrap_rows dd u) c1 c2 = Inr n"
proof -
  from assms(1) have c2: "c2 \<in> set (keys (row_of dd c1))" by (simp add: rk_def)
  then have "row_of dd c1 \<noteq> []" by auto
  then obtain row where row: "map_of dd c1 = Some row"
    by (auto simp: row_of_def split: option.splits)
  then have r: "row_of dd c1 = row" by (simp add: row_of_def)
  from c2 r obtain n where n: "map_of row c2 = Some n"
    using in_keys_Some by blast
  have "pos1 row" using assms(2) r by (auto simp: pos2_def)
  then have "0 < n" using n by (simp add: pos1_def)
  moreover have "getitem2 (wrap_rows dd u) c1 c2 = Inr n"
    using row n by (simp add: wrap_rows_def getitem2_def map_of_wrap_rows)
  ultimately show ?thesis using row n by blast
qed

lemma smoothed_pair_stored:
  fixes c :: "'a counts_scheme"
  assumes "inv_counted {} c" and "c1 \<in> set cmds" and "c2 \<in> set cmds"
    and "c1 \<noteq> e" and "c2 \<noteq> s"
  shows "\<exists>row n. map_of (seq2_c (smooth_cmds s e cmds c)) c1 = Some row
           \<and> map_of row c2 = Some n \<and> 0 < n
           \<and> getitem2 (wrap_rows (seq2_c (smooth_cmds s e cmds c)) u) c1 c2 = Inr n"
proof (rule stored_positive)
  show "(c1, c2) \<in> rk (seq2_c (smooth_cmds s e cmds c))"
    unfolding smooth_cmds_rk using assms(2-5) by simp
  show "pos2 (seq2_c (smooth_cmds s e cmds c))"
    using assms(1) by (simp add: smooth_cmds_pos2 inv_counted_def)
qed

text \<open>
  Claim C6 (smoothing coverage): when \<^verbatim>\<open>compute_counts\<close> returns, every pair
  \<open>(c1, c2)\<close> of the command vocabulary with \<open>c1\<close> not the end token and \<open>c2\<close> not
  the start token is stored in the returned bigram table with a strictly positive count,
  which is also what the lookup of the pair gives. Both modules.
\<close>

theorem C6_vocabulary_pairs_have_positive_counts:
  "(compute_counts_po sessions start_token end_token unk_token
       = Inr (seq1_counts, seq2_counts, param_counts, cmd_param_counts)
     \<and> c1 \<in> vocabulary sessions start_token end_token unk_token
     \<and> c2 \<in> vocabulary sessions start_token end_token unk_token
     \<and> c1 \<noteq> end_token \<and> c2 \<noteq> start_token \<longrightarrow>
     (\<exists>row n. map_of (items seq2_counts) c1 = Some row \<and> map_of (items row) c2 = Some n
        \<and> 0 < n \<and> getitem2 seq2_counts c1 c2 = Inr n))
   \<and> (compute_counts_pv sessions' start_token end_token unk_token
       = Inr (seq1_counts', seq2_counts', param_counts', cmd_param_counts',
              value_counts', param_value_counts')
     \<and> d1 \<in> vocabulary sessions' start_token end_token unk_token
     \<and> d2 \<in> vocabulary sessions' start_token end_token unk_token
     \<and> d1 \<noteq> end_token \<and> d2 \<noteq> start_token \<longrightarrow>
     (\<exists>row n. map_of (items seq2_counts') d1 = Some row \<and> map_of (items row) d2 = Some n
        \<and> 0 < n \<and> getitem2 seq2_counts' d1 d2 = Inr n))"
proof (intro conjI impI)
  assume a: "compute_counts_po sessions start_token end_token unk_token
       = Inr (seq1_counts, seq2_counts, param_counts, cmd_param_counts)
     \<and> c1 \<in> vocabulary sessions start_token end_token unk_token
     \<and> c2 \<in> vocabulary sessions start_token end_token unk_token
     \<and> c1 \<noteq> end_token \<and> c2 \<noteq> start_token"
  let ?c = "counted_po sessions start_token end_token"
  let ?cmds = "cmds_vocab ?c unk_token"
  from a have t2: "seq2_counts
      = wrap_rows (seq2_c (smooth_cmds start_token end_token ?cmds ?c)) unk_token"
    by (auto simp: compute_counts_po_def Let_def ebind_Inr_iff state_matrix2_iff
        seq_of_smoothed_po)
  have inv: "inv_counted {} ?c" by (rule counted_po_inv) simp_all
  from a have "c1 \<in> set ?cmds" "c2 \<in> set ?cmds" by (simp_all add: vocabulary_po)
  from smoothed_pair_stored [OF inv this, of end_token start_token unk_token] a
  obtain row n where s: "map_of (seq2_c (smooth_cmds start_token end_token ?cmds ?c)) c1 = Some row"
    "map_of row c2 = Some n" "0 < n" "getitem2 seq2_counts c1 c2 = Inr n"
    unfolding t2 by blast
  have "map_of (items seq2_counts) c1 = Some (StateMatrix row unk_token)"
    using s(1) by (simp add: t2 wrap_rows_def map_of_wrap_rows)
  then show "\<exists>row n. map_of (items seq2_counts) c1 = Some row \<and> map_of (items row) c2 = Some n
        \<and> 0 < n \<and> getitem2 seq2_counts c1 c2 = Inr n"
    using s(2-4) by simp
next
  assume a: "compute_counts_pv sessions' start_token end_token unk_token
       = Inr (seq1_counts', seq2_counts', param_counts', cmd_param_counts',
              value_counts', param_value_counts')
     \<and> d1 \<in> vocabulary sessions' start_token end_token unk_token
     \<and> d2 \<in> vocabulary sessions' start_token end_token unk_token
     \<and> d1 \<noteq> end_token \<and> d2 \<noteq> start_token"
  let ?c = "counted_pv sessions' start_token end_token"
  let ?cmds = "cmds_vocab ?c unk_token"
  from a have t2: "seq2_counts'
      = wrap_rows (seq2_c (smooth_cmds start_token end_token ?cmds ?c)) unk_token"
    by (auto simp: compute_counts_pv_def Let_def ebind_Inr_iff state_matrix2_iff
        seq_of_smoothed_pv)
  have inv: "inv_counted {} ?c" by (rule counted_pv_inv_base) simp_all
  from a have "d1 \<in> set ?cmds" "d2 \<in> set ?cmds" by (simp_all add: vocabulary_pv)
  from smoothed_pair_stored [OF inv this, of end_token start_token unk_token] a
  obtain row n where s: "map_of (seq2_c (smooth_cmds start_token end_token ?cmds ?c)) d1 = Some row"
    "map_of row d2 = Some n" "0 < n" "getitem2 seq2_counts' d1 d2 = Inr n"
    unfolding t2 by blast
  have "map_of (items seq2_counts') d1 = Some (StateMatrix row unk_token)"
    using s(1) by (simp add: t2 wrap_rows_def map_of_wrap_rows)
  then show "\<exists>row n. map_of (items seq2_counts') d1 = Some row \<and> map_of (items row) d2 = Some n
        \<and> 0 < n \<and> getitem2 seq2_counts' d1 d2 = Inr n"
    using s(2-4) by simp
qed

lemmas counts_eval =
  compute_counts_po_def compute_counts_pv_def smoothed_po_def smoothed_pv_def
  counted_po_def counted_pv_def cmds_vocab_def smooth_cond_def smooth_cond_pair_def
  smooth_cmds_def smooth_cmd_pair_def count_session_def count_cmd_def count_param_po_def
  count_param_pv_def empty_counts_po_def empty_counts_pv_def incr_def incr2_def row_of_def
  touch_def state_matrix_def state_matrix2_def keys_def dict_values_def Let_def

text \<open>
  Claim C5 (with no sessions the smoothing runs over exactly the start, end and unknown
  tokens) fails: the start and end tokens are counted inside the loop over the sessions,
  so with no session \<^verbatim>\<open>seq1_counts\<close> is empty and the vocabulary
  \<^verbatim>\<open>list(seq1_counts.keys()) + [unk_token]\<close> is the unknown token alone.
\<close>

theorem C5_empty_sessions_vocabulary_is_not_the_three_tokens:
  "set (cmds_vocab (counted_po [] ''##START##'' ''##END##'') ''##UNK##'')
     \<noteq> {''##START##'', ''##END##'', ''##UNK##''}
   \<and> set (cmds_vocab (counted_pv [] ''##START##'' ''##END##'') ''##UNK##'')
     \<noteq> {''##START##'', ''##END##'', ''##UNK##''}"
  by (simp add: counts_eval)

text \<open>
  Claim C5 as amended: with an empty list of sessions the command vocabulary over which
  the smoothing runs is exactly the unknown token; the smoothing completes, and when the
  unknown token differs from the start and the end token \<^verbatim>\<open>compute_counts\<close> returns
  the tables that hold the unknown token only (count 2 for the token, 1 for the pair and
  for each other entry), in both modules.
\<close>

theorem C5_empty_sessions_vocabulary_is_unknown_only:
  "cmds_vocab (counted_po [] start_token end_token) unk_token = [unk_token]
   \<and> cmds_vocab (counted_pv [] start_token end_token) unk_token = [unk_token]
   \<and> (unk_token \<noteq> start_token \<and> unk_token \<noteq> end_token \<longrightarrow>
        compute_counts_po [] start_token end_token unk_token
          = Inr (StateMatrix [(unk_token, 2)] unk_token,
                 StateMatrix [(unk_token, StateMatrix [(unk_token, 1)] unk_token)] unk_token,
                 StateMatrix [(unk_token, 1)] unk_token,
                 StateMatrix [(unk_token, StateMatrix [(unk_token, 1)] unk_token)] unk_token)
        \<and> compute_counts_pv [] start_token end_token unk_token
          = Inr (StateMatrix [(unk_token, 2)] unk_token,
                 StateMatrix [(unk_token, StateMatrix [(unk_token, 1)] unk_token)] unk_token,
                 StateMatrix [(unk_token, 1)] unk_token,
                 StateMatrix [(unk_token, StateMatrix [(unk_token, 1)] unk_token)] unk_token,
                 StateMatrix [(unk_token, 1)] unk_token,
                 StateMatrix [(unk_token, StateMatrix [(unk_token, 1)] unk_token)] unk_token))"
  by (simp add: counts_eval)

theorem C5_empty_sessions_witness:
  "cmds_vocab (counted_po [] ''##START##'' ''##END##'') ''##UNK##'' = [''##UNK##'']
   \<and> compute_counts_po [] ''##START##'' ''##END##'' ''##UNK##''
     = Inr (StateMatrix [(''##UNK##'', 2)] ''##UNK##'',
            StateMatrix [(''##UNK##'', StateMatrix [(''##UNK##'', 1)] ''##UNK##'')] ''##UNK##'',
            StateMatrix [(''##UNK##'', 1)] ''##UNK##'',
            StateMatrix [(''##UNK##'', StateMatrix [(''##UNK##'', 1)] ''##UNK##'')] ''##UNK##'')
   \<and> compute_counts_pv [] ''##START##'' ''##END##'' ''##UNK##''
     = Inr (StateMatrix [(''##UNK##'', 2)] ''##UNK##'',
            StateMatrix [(''##UNK##'', StateMatrix [(''##UNK##'', 1)] ''##UNK##'')] ''##UNK##'',
            StateMatrix [(''##UNK##'', 1)] ''##UNK##'',
            StateMatrix [(''##UNK##'', StateMatrix [(''##UNK##'', 1)] ''##UNK##'')] ''##UNK##'',
            StateMatrix [(''##UNK##'', 1)] ''##UNK##'',
            StateMatrix [(''##UNK##'', StateMatrix [(''##UNK##'', 1)] ''##UNK##'')] ''##UNK##'')"
  using C5_empty_sessions_vocabulary_is_unknown_only
    [of "''##START##''" "''##END##''" "''##UNK##''"]
  by simp

text \<open>
  Claim C10 (for every list of sessions and pairwise distinct tokens the counters meet
  the construction invariant) fails for a session with a command that is named like the
  end token: that name becomes a first key of the bigram counter in the counting loop,
  the smoothing skips the end token as a first command, and its row never gets the
  unknown token. The constructor then raises.
\<close>

theorem C10_command_named_end_token_breaks_invariant:
  "compute_counts_po [[\<lparr>name = ''##END##'', params = []\<rparr>]]
     ''##START##'' ''##END##'' ''##UNK##'' = Inl AssertionError
   \<and> compute_counts_pv [[\<lparr>name = ''##END##'', params = []\<rparr>]]
     ''##START##'' ''##END##'' ''##UNK##'' = Inl AssertionError"
  by (simp add: counts_eval)

theorem C10_count_tables_witness:
  "compute_counts_po [[\<lparr>name = ''A'', params = [''x'']\<rparr>, \<lparr>name = ''B'', params = []\<rparr>]]
     ''S'' ''E'' ''U''
   = Inr (StateMatrix [(''S'', 5), (''A'', 9), (''B'', 9), (''E'', 5), (''U'', 8)] ''U'',
          StateMatrix
           [(''S'', StateMatrix [(''A'', 2), (''B'', 1), (''E'', 1), (''U'', 1)] ''U''),
            (''A'', StateMatrix [(''B'', 2), (''A'', 1), (''E'', 1), (''U'', 1)] ''U''),
            (''B'', StateMatrix [(''E'', 2), (''A'', 1), (''B'', 1), (''U'', 1)] ''U''),
            (''U'', StateMatrix [(''A'', 1), (''B'', 1), (''E'', 1), (''U'', 1)] ''U'')] ''U'',
          StateMatrix [(''x'', 2), (''U'', 5)] ''U'',
          StateMatrix
           [(''A'', StateMatrix [(''x'', 2), (''U'', 1)] ''U''),
            (''S'', StateMatrix [(''U'', 1)] ''U''),
            (''B'', StateMatrix [(''U'', 1)] ''U''),
            (''E'', StateMatrix [(''U'', 1)] ''U''),
            (''U'', StateMatrix [(''U'', 1)] ''U'')] ''U'')
   \<and> compute_counts_pv [[\<lparr>name = ''A'', params = [(''x'', ''1'')]\<rparr>]] ''S'' ''E'' ''U''
   = Inr (StateMatrix [(''S'', 4), (''A'', 7), (''E'', 4), (''U'', 6)] ''U'',
          StateMatrix
           [(''S'', StateMatrix [(''A'', 2), (''E'', 1), (''U'', 1)] ''U''),
            (''A'', StateMatrix [(''E'', 2), (''A'', 1), (''U'', 1)] ''U''),
            (''U'', StateMatrix [(''A'', 1), (''E'', 1), (''U'', 1)] ''U'')] ''U'',
          StateMatrix [(''x'', 2), (''U'', 4)] ''U'',
          StateMatrix
           [(''A'', StateMatrix [(''x'', 2), (''U'', 1)] ''U''),
            (''S'', StateMatrix [(''U'', 1)] ''U''),
            (''E'', StateMatrix [(''U'', 1)] ''U''),
            (''U'', StateMatrix [(''U'', 1)] ''U'')] ''U'',
          StateMatrix [(''1'', 2), (''U'', 2)] ''U'',
          StateMatrix
           [(''x'', StateMatrix [(''1'', 2), (''U'', 1)] ''U''),
            (''U'', StateMatrix [(''U'', 1)] ''U'')] ''U'')"
  using C10_count_tables_meet_invariant [of "''S''" "''E''" "''U''"
      "[[\<lparr>name = ''A'', params = [''x'']\<rparr>, \<lparr>name = ''B'', params = []\<rparr>]]"
      "[[\<lparr>name = ''A'', params = [(''x'', ''1'')]\<rparr>]]"]
  by (simp add: counts_eval)

theorem C6_positive_counts_witness:
  "compute_counts_po [[\<lparr>name = ''A'', params = [''x'']\<rparr>, \<lparr>name = ''B'', params = []\<rparr>]]
     ''S'' ''E'' ''U''
   = Inr (StateMatrix [(''S'', 5), (''A'', 9), (''B'', 9), (''E'', 5), (''U'', 8)] ''U'',
          StateMatrix
           [(''S'', StateMatrix [(''A'', 2), (''B'', 1), (''E'', 1), (''U'', 1)] ''U''),
            (''A'', StateMatrix [(''B'', 2), (''A'', 1), (''E'', 1), (''U'', 1)] ''U''),
            (''B'', StateMatrix [(''E'', 2), (''A'', 1), (''B'', 1), (''U'', 1)] ''U''),
            (''U'', StateMatrix [(''A'', 1), (''B'', 1), (''E'', 1), (''U'', 1)] ''U'')] ''U'',
          StateMatrix [(''x'', 2), (''U'', 5)] ''U'',
          StateMatrix
           [(''A'', StateMatrix [(''x'', 2), (''U'', 1)] ''U''),
            (''S'', StateMatrix [(''U'', 1)] ''U''),
            (''B'', StateMatrix [(''U'', 1)] ''U''),
            (''E'', StateMatrix [(''U'', 1)] ''U''),
            (''U'', StateMatrix [(''U'', 1)] ''U'')] ''U'')
   \<and> ''B'' \<in> vocabulary [[\<lparr>name = ''A'', params = [''x'']\<rparr>, \<lparr>name = ''B'', params = []\<rparr>]]
              ''S'' ''E'' ''U''
   \<and> ''U'' \<in> vocabulary [[\<lparr>name = ''A'', params = [''x'']\<rparr>, \<lparr>name = ''B'', params = []\<rparr>]]
              ''S'' ''E'' ''U''
   \<and> getitem2 (StateMatrix
           [(''S'', StateMatrix [(''A'', 2), (''B'', 1), (''E'', 1), (''U'', 1)] ''U''),
            (''A'', StateMatrix [(''B'', 2), (''A'', 1), (''E'', 1), (''U'', 1)] ''U''),
            (''B'', StateMatrix [(''E'', 2), (''A'', 1), (''B'', 1), (''U'', 1)] ''U''),
            (''U'', StateMatrix [(''A'', 1), (''B'', 1), (''E'', 1), (''U'', 1::int)] ''U'')] ''U'')
         ''B'' ''U'' = Inr 1
   \<and> compute_counts_pv [[\<lparr>name = ''A'', params = [(''x'', ''1'')]\<rparr>]] ''S'' ''E'' ''U''
   = Inr (StateMatrix [(''S'', 4), (''A'', 7), (''E'', 4), (''U'', 6)] ''U'',
          StateMatrix
           [(''S'', StateMatrix [(''A'', 2), (''E'', 1), (''U'', 1)] ''U''),
            (''A'', StateMatrix [(''E'', 2), (''A'', 1), (''U'', 1)] ''U''),
            (''U'', StateMatrix [(''A'', 1), (''E'', 1), (''U'', 1)] ''U'')] ''U'',
          StateMatrix [(''x'', 2), (''U'', 4)] ''U'',
          StateMatrix
           [(''A'', StateMatrix [(''x'', 2), (''U'', 1)] ''U''),
            (''S'', StateMatrix [(''U'', 1)] ''U''),
            (''E'', StateMatrix [(''U'', 1)] ''U''),
            (''U'', StateMatrix [(''U'', 1)] ''U'')] ''U'',
          StateMatrix [(''1'', 2), (''U'', 2)] ''U'',
          StateMatrix
           [(''x'', StateMatrix [(''1'', 2), (''U'', 1)] ''U''),
            (''U'', StateMatrix [(''U'', 1)] ''U'')] ''U'')
   \<and> getitem2 (StateMatrix
           [(''S'', StateMatrix [(''A'', 2), (''E'', 1), (''U'', 1)] ''U''),
            (''A'', StateMatrix [(''E'', 2), (''A'', 1), (''U'', 1)] ''U''),
            (''U'', StateMatrix [(''A'', 1), (''E'', 1), (''U'', 1::int)] ''U'')] ''U'')
         ''S'' ''E'' = Inr 1"
  using C6_vocabulary_pairs_have_positive_counts [of
      "[[\<lparr>name = ''A'', params = [''x'']\<rparr>, \<lparr>name = ''B'', params = []\<rparr>]]"
      "''S''" "''E''" "''U''"
      "StateMatrix [(''S'', 5), (''A'', 9), (''B'', 9), (''E'', 5), (''U'', 8)] ''U''"
      "StateMatrix
           [(''S'', StateMatrix [(''A'', 2), (''B'', 1), (''E'', 1), (''U'', 1)] ''U''),
            (''A'', StateMatrix [(''B'', 2), (''A'', 1), (''E'', 1), (''U'', 1)] ''U''),
            (''B'', StateMatrix [(''E'', 2), (''A'', 1), (''B'', 1), (''U'', 1)] ''U''),
            (''U'', StateMatrix [(''A'', 1), (''B'', 1), (''E'', 1), (''U'', 1)] ''U'')] ''U''"
      "StateMatrix [(''x'', 2), (''U'', 5)] ''U''"
      "StateMatrix
           [(''A'', StateMatrix [(''x'', 2), (''U'', 1)] ''U''),
            (''S'', StateMatrix [(''U'', 1)] ''U''),
            (''B'', StateMatrix [(''U'', 1)] ''U''),
            (''E'', StateMatrix [(''U'', 1)] ''U''),
            (''U'', StateMatrix [(''U'', 1)] ''U'')] ''U''"
      "''B''" "''U''"
      "[[\<lparr>name = ''A'', params = [(''x'', ''1'')]\<rparr>]]"]
  by (simp add: counts_eval vocabulary_def getitem2_def)

end
